theory Spec2Isabelle
  imports
    Complex_Main
    "HOL-Library.Char_ord"
    "HOL-Library.List_Lexorder"
    "HOL-Library.Multiset"
    "HOL-Library.Sublist"
begin

section \<open>Common conventions\<close>

text \<open>
  The repository is Python on top of pandas. A DataFrame is modelled by the list of its rows,
  in row order. A missing value (\<open>None\<close>, \<open>NaN\<close>, \<open>pd.NA\<close>, \<open>NaT\<close>) of a typed column is
  \<open>None\<close> of an option type. \<open>float64\<close> amounts are modelled by exact rationals: rounding of
  binary floating point is not part of the model. Every exception the Python can raise is a
  value \<open>Inl e\<close> of a sum type.
\<close>

datatype error = TypeError | KeyError | ValueError | AttributeError

text \<open>Running a list of fallible computations: the first exception aborts the whole.\<close>

fun collect :: "(error + 'a) list \<Rightarrow> error + 'a list" where
  "collect [] = Inr []"
| "collect (Inl e # xs) = Inl e"
| "collect (Inr x # xs) = (case collect xs of Inl e \<Rightarrow> Inl e | Inr ys \<Rightarrow> Inr (x # ys))"


text \<open>\<open>Series.unique()\<close>: the distinct values in order of first appearance.\<close>

fun unique :: "'a list \<Rightarrow> 'a list" where
  "unique [] = []"
| "unique (x # xs) = x # filter (\<lambda>y. y \<noteq> x) (unique xs)"

section \<open>Dashboard aggregates (\<open>dashboard_core/metrics.py\<close>, \<open>app.py\<close>)\<close>

text \<open>
  A row of the denormalised frame the dashboard works on, with the column types that
  \<open>clean_base_df\<close> gives it: \<open>total\<close> is \<open>float64\<close>, \<open>truck_name\<close> and \<open>payment_method\<close> have
  the pandas \<open>string\<close> dtype (missing value \<open>pd.NA\<close>).
\<close>

record tx =
  transaction_id :: "int option"
  truck_name :: "string option"
  payment_method :: "string option"
  total :: "rat option"








record perf =
  perf_truck_name :: string
  revenue :: rat
  transactions :: nat
  avg_sale :: "rat option"
  cash_share :: rat





text \<open>
  \<open>df["payment_method"].value_counts(dropna=False)\<close>: one bucket per distinct value, the
  missing value included, with the number of rows holding it, largest count first (the order
  among equal counts is not fixed by pandas; the model keeps first appearance).
  \<open>fillna("unknown")\<close> then relabels the bucket of the missing value.
\<close>

definition value_counts :: "'a list \<Rightarrow> ('a \<times> nat) list" where
  "value_counts xs =
     rev (sort_key snd (rev (map (\<lambda>v. (v, length (filter (\<lambda>x. x = v) xs))) (unique xs))))"

definition fillna :: "string \<Rightarrow> string option \<Rightarrow> string" where
  "fillna d v = (case v of None \<Rightarrow> d | Some s \<Rightarrow> s)"

definition compute_payment_mix :: "tx list \<Rightarrow> (string \<times> nat) list" where
  "compute_payment_mix df =
     map (\<lambda>(v, n). (fillna ''unknown'' v, n)) (value_counts (map payment_method df))"

text \<open>
  \<open>Series.quantile(q)\<close> with the default linear interpolation: on the sorted values
  \<open>s\<close> of length \<open>n\<close>, at position \<open>h = q * (n - 1)\<close>, between the neighbours
  \<open>s[floor h]\<close> and \<open>s[ceil h]\<close>; \<open>NaN\<close> on an empty column.
\<close>

definition quantile :: "rat \<Rightarrow> rat list \<Rightarrow> rat option" where
  "quantile q xs =
     (if xs = [] then None
      else let s = sort xs;
               h = q * of_nat (length s - 1);
               lo = nat \<lfloor>h\<rfloor>;
               hi = nat \<lceil>h\<rceil>
           in Some (s ! lo + (s ! hi - s ! lo) * (h - of_nat lo)))"

definition low_rev_threshold :: "perf list \<Rightarrow> rat option" where
  "low_rev_threshold truck_perf = quantile (1 / 4) (map revenue truck_perf)"

text \<open>\<open>truck_perf[truck_perf["revenue"] <= low_rev_threshold]\<close>; a comparison with \<open>NaN\<close> is false.\<close>

definition low_rev :: "perf list \<Rightarrow> perf list" where
  "low_rev truck_perf =
     (case low_rev_threshold truck_perf of
        None \<Rightarrow> []
      | Some t \<Rightarrow> filter (\<lambda>r. revenue r \<le> t) truck_perf)"


section \<open>Frames of the pipeline (\<open>pipeline/transform.py\<close>, \<open>pipeline/load.py\<close>)\<close>

text \<open>
  The pipeline works on frames whose columns are looked up by name and may be absent, and
  whose cells are untyped on input. A cell is a missing value, a string, a number (an
  \<open>int64\<close>, \<open>Int64\<close> or \<open>float64\<close> value, taken exactly), a boolean or a timestamp. A row maps
  column names to cells and reads \<open>NA\<close> at a column the frame does not have.
\<close>

record timestamp =
  year :: nat
  month :: nat
  day :: nat
  hour :: nat
  minute :: nat
  second :: nat

datatype cell = NA | Str string | Num rat | Bool bool | Time timestamp

type_synonym row = "string \<Rightarrow> cell"

record frame =
  columns :: "string list"
  rows :: "row list"

text \<open>\<open>df[c]\<close>: the column as a list of cells.\<close>

definition column :: "string \<Rightarrow> frame \<Rightarrow> cell list" where
  "column c df = map (\<lambda>r. r c) (rows df)"

text \<open>\<open>df[c] = f(row)\<close>: assigns a column, appending it when the frame does not have it.\<close>

definition set_col :: "string \<Rightarrow> (row \<Rightarrow> cell) \<Rightarrow> frame \<Rightarrow> frame" where
  "set_col c f df =
     \<lparr> columns = (if c \<in> set (columns df) then columns df else columns df @ [c]),
       rows = map (\<lambda>r. r(c := f r)) (rows df) \<rparr>"

text \<open>The same when computing the new column can raise: the first exception wins.\<close>

definition try_set_col :: "string \<Rightarrow> (row \<Rightarrow> error + cell) \<Rightarrow> frame \<Rightarrow> error + frame" where
  "try_set_col c f df =
     (case collect (map f (rows df)) of
        Inl e \<Rightarrow> Inl e
      | Inr vs \<Rightarrow>
          Inr \<lparr> columns = (if c \<in> set (columns df) then columns df else columns df @ [c]),
                rows = map (\<lambda>(r, v). r(c := v)) (zip (rows df) vs) \<rparr>)"

text \<open>\<open>df[mask]\<close>: the rows that satisfy a condition, in order.\<close>

definition keep :: "(row \<Rightarrow> bool) \<Rightarrow> frame \<Rightarrow> frame" where
  "keep ok df = \<lparr> columns = columns df, rows = filter ok (rows df) \<rparr>"

text \<open>\<open>df.drop(columns=cs)\<close>.\<close>

definition drop_columns :: "string list \<Rightarrow> frame \<Rightarrow> frame" where
  "drop_columns cs df =
     \<lparr> columns = filter (\<lambda>c. c \<notin> set cs) (columns df),
       rows = map (\<lambda>r c. if c \<in> set cs then NA else r c) (rows df) \<rparr>"

text \<open>
  \<open>df.drop_duplicates(subset=[c], keep="first")\<close>: of the rows that hold the same value
  in column \<open>c\<close> (missing values count as the same value) the first one stays.
\<close>

fun first_by :: "('a \<Rightarrow> 'k) \<Rightarrow> 'a list \<Rightarrow> 'a list" where
  "first_by key [] = []"
| "first_by key (r # rs) = r # filter (\<lambda>r'. key r' \<noteq> key r) (first_by key rs)"

definition drop_duplicates :: "string \<Rightarrow> frame \<Rightarrow> frame" where
  "drop_duplicates c df = \<lparr> columns = columns df, rows = first_by (\<lambda>r. r c) (rows df) \<rparr>"

definition and_then :: "error + 'a \<Rightarrow> ('a \<Rightarrow> error + 'b) \<Rightarrow> error + 'b" where
  "and_then m f = (case m of Inl e \<Rightarrow> Inl e | Inr x \<Rightarrow> f x)"

subsection \<open>Strings\<close>

text \<open>
  Strings are byte strings; \<open>str.strip\<close>, \<open>str.lower\<close> and \<open>str.upper\<close> are modelled on ASCII.
\<close>

definition is_space :: "char \<Rightarrow> bool" where
  "is_space ch = (ch \<in> set [CHR '' '', CHR 0x09, CHR 0x0A, CHR 0x0B, CHR 0x0C, CHR 0x0D,
                              CHR 0x1C, CHR 0x1D, CHR 0x1E, CHR 0x1F])"

definition strip :: "string \<Rightarrow> string" where
  "strip s = rev (dropWhile is_space (rev (dropWhile is_space s)))"

definition lower_char :: "char \<Rightarrow> char" where
  "lower_char ch =
     (case map_of (zip ''ABCDEFGHIJKLMNOPQRSTUVWXYZ'' ''abcdefghijklmnopqrstuvwxyz'') ch of
        None \<Rightarrow> ch | Some d \<Rightarrow> d)"

definition upper_char :: "char \<Rightarrow> char" where
  "upper_char ch =
     (case map_of (zip ''abcdefghijklmnopqrstuvwxyz'' ''ABCDEFGHIJKLMNOPQRSTUVWXYZ'') ch of
        None \<Rightarrow> ch | Some d \<Rightarrow> d)"

text \<open>The \<open>.str\<close> accessors of a \<open>string\<close> column: a missing value stays missing.\<close>

fun str_strip :: "cell \<Rightarrow> cell" where
  "str_strip (Str s) = Str (strip s)"
| "str_strip v = v"

fun str_lower :: "cell \<Rightarrow> cell" where
  "str_lower (Str s) = Str (map lower_char s)"
| "str_lower v = v"

fun str_upper :: "cell \<Rightarrow> cell" where
  "str_upper (Str s) = Str (map upper_char s)"
| "str_upper v = v"

text \<open>Decimal digits of a natural number; \<open>f"{int(x):02d}"\<close>.\<close>

fun show_nat :: "nat \<Rightarrow> string" where
  "show_nat n =
     (if n < 10 then [''0123456789'' ! n]
      else show_nat (n div 10) @ [''0123456789'' ! (n mod 10)])"

declare show_nat.simps [simp del]

definition pad2 :: "nat \<Rightarrow> string" where
  "pad2 n = (if n < 10 then ''0'' @ show_nat n else show_nat n)"

subsection \<open>The conversions of pandas\<close>

text \<open>
  How pandas reads a number or a timestamp out of a string, and how it prints a value that
  is not a string, is library code outside the repository. These functions are parameters
  of the model; the results below hold for every choice of them.
\<close>

record pandas =
  parse_number :: "string \<Rightarrow> rat option"
  parse_datetime :: "string \<Rightarrow> timestamp option"
  datetime_of_number :: "rat \<Rightarrow> timestamp option"
  number_of_datetime :: "timestamp \<Rightarrow> rat"
  text_of :: "cell \<Rightarrow> string"

text \<open>\<open>Series.astype("string")\<close>, cell by cell.\<close>

fun astype_string :: "pandas \<Rightarrow> cell \<Rightarrow> cell" where
  "astype_string P NA = NA"
| "astype_string P (Str s) = Str s"
| "astype_string P v = Str (text_of P v)"

text \<open>\<open>pd.to_numeric(s, errors="coerce")\<close>, cell by cell: \<open>None\<close> is \<open>NaN\<close>.\<close>

fun to_numeric :: "pandas \<Rightarrow> cell \<Rightarrow> rat option" where
  "to_numeric P NA = None"
| "to_numeric P (Num x) = Some x"
| "to_numeric P (Bool b) = Some (if b then 1 else 0)"
| "to_numeric P (Str s) = parse_number P s"
| "to_numeric P (Time t) = Some (number_of_datetime P t)"

definition number_cell :: "rat option \<Rightarrow> cell" where
  "number_cell v = (case v of None \<Rightarrow> NA | Some x \<Rightarrow> Num x)"

text \<open>
  \<open>pd.to_datetime(s, errors="coerce")\<close>, cell by cell: \<open>None\<close> is \<open>NaT\<close>. A boolean is
  refused with \<open>TypeError\<close> whatever \<open>errors\<close> says.
\<close>

fun to_datetime :: "pandas \<Rightarrow> cell \<Rightarrow> error + timestamp option" where
  "to_datetime P NA = Inr None"
| "to_datetime P (Time t) = Inr (Some t)"
| "to_datetime P (Str s) = Inr (parse_datetime P s)"
| "to_datetime P (Num x) = Inr (datetime_of_number P x)"
| "to_datetime P (Bool b) = Inl TypeError"

definition datetime_cell :: "timestamp option \<Rightarrow> cell" where
  "datetime_cell v = (case v of None \<Rightarrow> NA | Some t \<Rightarrow> Time t)"

definition datetime_col :: "pandas \<Rightarrow> string \<Rightarrow> row \<Rightarrow> error + cell" where
  "datetime_col P c r =
     (case to_datetime P (r c) of Inl e \<Rightarrow> Inl e | Inr v \<Rightarrow> Inr (datetime_cell v))"

text \<open>
  \<open>.astype("Int64")\<close> of a numeric column: \<open>NaN\<close> becomes \<open>pd.NA\<close>, a whole number stays, any
  other number raises \<open>TypeError\<close> (cannot safely cast).
\<close>

definition astype_Int64 :: "rat option \<Rightarrow> error + cell" where
  "astype_Int64 v =
     (case v of
        None \<Rightarrow> Inr NA
      | Some x \<Rightarrow> if of_int \<lfloor>x\<rfloor> = x then Inr (Num x) else Inl TypeError)"

text \<open>\<open>.astype("boolean")\<close> of an \<open>Int64\<close> column.\<close>

fun astype_boolean :: "cell \<Rightarrow> cell" where
  "astype_boolean (Num x) = Bool (x \<noteq> 0)"
| "astype_boolean v = v"

section \<open>Cleaning (\<open>clean_transactions\<close>)\<close>

text \<open>\<open># Strip text\<close>: the loop over \<open>text_cols\<close>.\<close>

definition text_cols :: "string list" where
  "text_cols = [''payment_method'', ''truck_name'', ''truck_description'']"

definition strip_text_col :: "pandas \<Rightarrow> string \<Rightarrow> frame \<Rightarrow> frame" where
  "strip_text_col P c df =
     (if c \<in> set (columns df) then set_col c (\<lambda>r. str_strip (astype_string P (r c))) df else df)"

definition strip_text :: "pandas \<Rightarrow> frame \<Rightarrow> frame" where
  "strip_text P df = fold (strip_text_col P) text_cols df"

text \<open>\<open># Total handling\<close>. Reading \<open>df["total"]\<close> of a frame without the column raises.\<close>

definition void_to_na :: "cell \<Rightarrow> cell" where
  "void_to_na v = (if str_upper v = Str ''VOID'' then NA else v)"

definition positive :: "cell \<Rightarrow> bool" where
  "positive v = (case v of Num x \<Rightarrow> 0 < x | _ \<Rightarrow> False)"

definition total_handling :: "pandas \<Rightarrow> frame \<Rightarrow> error + frame" where
  "total_handling P df =
     (if ''total'' \<notin> set (columns df) then Inl KeyError
      else
        let df = set_col ''total'' (\<lambda>r. str_strip (astype_string P (r ''total''))) df;
            df = set_col ''total'' (\<lambda>r. void_to_na (r ''total'')) df;
            df = set_col ''total'' (\<lambda>r. number_cell (to_numeric P (r ''total''))) df
        in Inr (keep (\<lambda>r. r ''total'' \<noteq> NA \<and> positive (r ''total'')) df))"

text \<open>\<open># Timestamp\<close>.\<close>

definition timestamp_handling :: "pandas \<Rightarrow> frame \<Rightarrow> error + frame" where
  "timestamp_handling P df =
     (if ''at'' \<notin> set (columns df) then Inl KeyError
      else and_then (try_set_col ''at'' (datetime_col P ''at'') df)
             (\<lambda>df. Inr (keep (\<lambda>r. r ''at'' \<noteq> NA) df)))"

text \<open>\<open># Domain checks\<close>, each under its \<open>if c in df.columns\<close>.\<close>

definition between :: "rat \<Rightarrow> rat \<Rightarrow> cell \<Rightarrow> bool" where
  "between lo hi v = (case v of Num x \<Rightarrow> lo \<le> x \<and> x \<le> hi | _ \<Rightarrow> False)"

definition check_has_card_reader :: "pandas \<Rightarrow> frame \<Rightarrow> frame" where
  "check_has_card_reader P df =
     (if ''has_card_reader'' \<in> set (columns df) then
        keep (\<lambda>r. r ''has_card_reader'' \<in> set [Num 0, Num 1])
          (set_col ''has_card_reader'' (\<lambda>r. number_cell (to_numeric P (r ''has_card_reader''))) df)
      else df)"

definition check_fsa_rating :: "pandas \<Rightarrow> frame \<Rightarrow> frame" where
  "check_fsa_rating P df =
     (if ''fsa_rating'' \<in> set (columns df) then
        keep (\<lambda>r. between 0 5 (r ''fsa_rating''))
          (set_col ''fsa_rating'' (\<lambda>r. number_cell (to_numeric P (r ''fsa_rating''))) df)
      else df)"

definition check_payment_method :: "frame \<Rightarrow> frame" where
  "check_payment_method df =
     (if ''payment_method'' \<in> set (columns df) then
        keep (\<lambda>r. r ''payment_method'' \<in> set [Str ''cash'', Str ''card''])
          (set_col ''payment_method'' (\<lambda>r. str_lower (r ''payment_method'')) df)
      else df)"

definition domain_checks :: "pandas \<Rightarrow> frame \<Rightarrow> frame" where
  "domain_checks P df = check_payment_method (check_fsa_rating P (check_has_card_reader P df))"

text \<open>\<open># Remove Duplicates\<close>.\<close>

definition remove_duplicates :: "frame \<Rightarrow> frame" where
  "remove_duplicates df =
     (if ''transaction_id'' \<in> set (columns df) then drop_duplicates ''transaction_id'' df else df)"

text \<open>\<open># Type cast ids and ints\<close>: the loop over \<open>int_cols\<close>, then \<open>total\<close> and the flag.\<close>

definition int_cols :: "string list" where
  "int_cols = [''truck_id'', ''payment_method_id'', ''transaction_id'', ''fsa_rating'',
               ''has_card_reader'']"

definition cast_int_col :: "pandas \<Rightarrow> string \<Rightarrow> frame \<Rightarrow> error + frame" where
  "cast_int_col P c df =
     (if c \<in> set (columns df) then try_set_col c (\<lambda>r. astype_Int64 (to_numeric P (r c))) df
      else Inr df)"

fun cast_int_cols :: "pandas \<Rightarrow> string list \<Rightarrow> frame \<Rightarrow> error + frame" where
  "cast_int_cols P [] df = Inr df"
| "cast_int_cols P (c # cs) df = and_then (cast_int_col P c df) (cast_int_cols P cs)"

definition cast_boolean :: "frame \<Rightarrow> frame" where
  "cast_boolean df =
     (if ''has_card_reader'' \<in> set (columns df) then
        set_col ''has_card_reader'' (\<lambda>r. astype_boolean (r ''has_card_reader'')) df
      else df)"

text \<open>\<open>.astype("float64")\<close> of the numeric \<open>total\<close> column leaves every number as it is.\<close>

definition astype_float64 :: "cell \<Rightarrow> cell" where
  "astype_float64 v = v"

definition type_cast :: "pandas \<Rightarrow> frame \<Rightarrow> error + frame" where
  "type_cast P df =
     and_then (cast_int_cols P int_cols df)
       (\<lambda>df. Inr (cast_boolean (set_col ''total'' (\<lambda>r. astype_float64 (r ''total'')) df)))"

text \<open>The final column order.\<close>

definition preferred_order :: "string list" where
  "preferred_order =
     [''transaction_id'', ''at'', ''truck_name'', ''payment_method'', ''total'', ''truck_id'',
      ''payment_method_id'', ''fsa_rating'', ''has_card_reader'', ''truck_description'']"

definition reorder :: "frame \<Rightarrow> frame" where
  "reorder df =
     \<lparr> columns = filter (\<lambda>c. c \<in> set (columns df)) preferred_order
                 @ filter (\<lambda>c. c \<notin> set preferred_order) (columns df),
       rows = rows df \<rparr>"

text \<open>The rows that pass every validity rule, typed, before duplicates are removed.\<close>

definition validated :: "pandas \<Rightarrow> frame \<Rightarrow> error + frame" where
  "validated P df =
     and_then (total_handling P (strip_text P df))
       (\<lambda>df. and_then (timestamp_handling P df) (\<lambda>df. Inr (domain_checks P df)))"

definition clean_transactions :: "pandas \<Rightarrow> frame \<Rightarrow> error + frame" where
  "clean_transactions P df =
     and_then (validated P df)
       (\<lambda>df. and_then (type_cast P (remove_duplicates df)) (\<lambda>df. Inr (reorder df)))"


text \<open>
  What the \<open># Total handling\<close> steps make of a cell; a number reads back when printing it
  with \<open>astype("string")\<close> and parsing the text with \<open>to_numeric\<close> gives the number again.
\<close>

definition reads_back :: "pandas \<Rightarrow> cell \<Rightarrow> bool" where
  "reads_back P v \<longleftrightarrow>
     number_cell (to_numeric P (void_to_na (str_strip (astype_string P v)))) = v"

text \<open>The shape of a frame that \<open>clean_transactions\<close> returns.\<close>

definition cleaned_row :: "pandas \<Rightarrow> string set \<Rightarrow> row \<Rightarrow> bool" where
  "cleaned_row P cs r \<longleftrightarrow>
     (\<exists>x. r ''total'' = Num x \<and> 0 < x) \<and> (\<exists>t. r ''at'' = Time t)
     \<and> (\<forall>c \<in> {''truck_name'', ''truck_description''}. c \<in> cs \<longrightarrow>
           str_strip (astype_string P (r c)) = r c)
     \<and> (''payment_method'' \<in> cs \<longrightarrow> r ''payment_method'' \<in> {Str ''cash'', Str ''card''})
     \<and> (''has_card_reader'' \<in> cs \<longrightarrow> r ''has_card_reader'' \<in> {Bool False, Bool True})
     \<and> (''fsa_rating'' \<in> cs \<longrightarrow> between 0 5 (r ''fsa_rating''))
     \<and> (\<forall>c \<in> {''truck_id'', ''payment_method_id'', ''transaction_id'', ''fsa_rating''}. c \<in> cs \<longrightarrow>
           astype_Int64 (to_numeric P (r c)) = Inr (r c))"

definition cleaned :: "pandas \<Rightarrow> frame \<Rightarrow> bool" where
  "cleaned P df \<longleftrightarrow>
     reorder df = df \<and> ''total'' \<in> set (columns df) \<and> ''at'' \<in> set (columns df)
     \<and> (\<forall>r \<in> set (rows df). cleaned_row P (set (columns df)) r)"

section \<open>Writing the partitioned transactions (\<open>write_time_partitioned_transactions\<close>)\<close>

text \<open>
  \<open>.dt.year\<close>, \<open>.dt.month\<close>, ... of a timestamp column, printed: \<open>.astype("Int64").astype(str)\<close>
  for the year, \<open>f"{int(x):02d}"\<close> for the others. The \<open>.dt\<close> accessor raises
  \<open>AttributeError\<close> on anything that is not a timestamp.
\<close>

definition dt_text :: "(timestamp \<Rightarrow> string) \<Rightarrow> cell \<Rightarrow> error + cell" where
  "dt_text f v = (case v of Time t \<Rightarrow> Inr (Str (f t)) | _ \<Rightarrow> Inl AttributeError)"

definition partition_columns :: "string list" where
  "partition_columns = [''year'', ''month'', ''day'', ''hour'']"

text \<open>The key of a row in \<open>df.groupby(["year", "month", "day", "hour"], sort=False)\<close>.\<close>

definition group_key :: "row \<Rightarrow> cell list" where
  "group_key r = map r partition_columns"

text \<open>A value inside an f-string: a string as it is, anything else as Python prints it.\<close>

definition cell_text :: "pandas \<Rightarrow> cell \<Rightarrow> string" where
  "cell_text P v = (case v of Str s \<Rightarrow> s | _ \<Rightarrow> text_of P v)"

text \<open>
  \<open>root_dir / f"year={y}" / f"month={m}" / f"day={d}" / f"hour={h}" / filename\<close>; a path is
  the list of its components.
\<close>

definition out_path :: "pandas \<Rightarrow> string list \<Rightarrow> cell list \<Rightarrow> string \<Rightarrow> string list" where
  "out_path P root_dir k filename =
     root_dir @ [''year='' @ cell_text P (k ! 0), ''month='' @ cell_text P (k ! 1),
                 ''day='' @ cell_text P (k ! 2), ''hour='' @ cell_text P (k ! 3), filename]"

text \<open>
  The function returns nothing; its effect is the files it writes. The model returns them
  in the order written, each with its path and the frame stored in it. Groups come in the
  order in which their keys first appear (\<open>sort=False\<close>). A timestamp column called
  \<open>year\<close>, \<open>month\<close> or \<open>day\<close> is overwritten by strings before \<open>.dt\<close> reads it again.
\<close>

definition write_time_partitioned_transactions ::
    "pandas \<Rightarrow> frame \<Rightarrow> string list \<Rightarrow> string \<Rightarrow> string \<Rightarrow> error + (string list \<times> frame) list"
  where
  "write_time_partitioned_transactions P transactions' root_dir timestamp_col filename =
     (if timestamp_col \<notin> set (columns transactions') then Inl KeyError
      else
        and_then (try_set_col timestamp_col (datetime_col P timestamp_col) transactions') (\<lambda>df.
        let df = keep (\<lambda>r. r timestamp_col \<noteq> NA) df in
        if timestamp_col \<in> set [''year'', ''month'', ''day''] then Inl AttributeError
        else
          and_then (try_set_col ''year''
                      (\<lambda>r. dt_text (\<lambda>t. show_nat (year t)) (r timestamp_col)) df) (\<lambda>df.
          and_then (try_set_col ''month''
                      (\<lambda>r. dt_text (\<lambda>t. pad2 (month t)) (r timestamp_col)) df) (\<lambda>df.
          and_then (try_set_col ''day''
                      (\<lambda>r. dt_text (\<lambda>t. pad2 (day t)) (r timestamp_col)) df) (\<lambda>df.
          and_then (try_set_col ''hour''
                      (\<lambda>r. dt_text (\<lambda>t. pad2 (hour t)) (r timestamp_col)) df) (\<lambda>df.
          Inr (map (\<lambda>k. (out_path P root_dir k filename,
                          drop_columns partition_columns (keep (\<lambda>r. group_key r = k) df)))
                   (unique (map group_key (rows df))))))))))"

text \<open>
  The leaf partition the specification assigns to a timestamp: year, zero-padded month,
  zero-padded day and zero-padded hour.
\<close>

definition partition_of :: "timestamp \<Rightarrow> string list" where
  "partition_of t =
     [''year='' @ show_nat (year t), ''month='' @ pad2 (month t),
      ''day='' @ pad2 (day t), ''hour='' @ pad2 (hour t)]"

text \<open>
  A transaction as it is stored: its parsed timestamp in \<open>at\<close>, the partition columns
  removed, every other cell as in the input.
\<close>

definition parses :: "pandas \<Rightarrow> row \<Rightarrow> bool" where
  "parses P r = (case to_datetime P (r ''at'') of Inr (Some t) \<Rightarrow> True | _ \<Rightarrow> False)"

definition stored_row :: "pandas \<Rightarrow> row \<Rightarrow> row" where
  "stored_row P r =
     (\<lambda>c. if c \<in> set partition_columns then NA
          else if c = ''at'' then (case to_datetime P (r ''at'') of Inr v \<Rightarrow> datetime_cell v | Inl e \<Rightarrow> NA)
          else r c)"

definition written_rows :: "(string list \<times> frame) list \<Rightarrow> row list" where
  "written_rows ws = concat (map (\<lambda>w. rows (snd w)) ws)"

text \<open>
  The frame just before it is grouped: every row carries the four printed fields of its
  timestamp in the partition columns. \<open>unpartitioned\<close> is a row of
  \<open>chunk.drop(columns=["year", "month", "day", "hour"])\<close>.
\<close>

definition dt_cell :: "(timestamp \<Rightarrow> string) \<Rightarrow> cell \<Rightarrow> cell" where
  "dt_cell f v = (case v of Time t \<Rightarrow> Str (f t) | _ \<Rightarrow> NA)"

definition stamp :: "row \<Rightarrow> row" where
  "stamp r = r(''year'' := dt_cell (\<lambda>t. show_nat (year t)) (r ''at''),
               ''month'' := dt_cell (\<lambda>t. pad2 (month t)) (r ''at''),
               ''day'' := dt_cell (\<lambda>t. pad2 (day t)) (r ''at''),
               ''hour'' := dt_cell (\<lambda>t. pad2 (hour t)) (r ''at''))"

definition unpartitioned :: "row \<Rightarrow> row" where
  "unpartitioned r = (\<lambda>c. if c \<in> set partition_columns then NA else r c)"


text \<open>The files written, for stating what a call wrote; none if it raised.\<close>

definition the_files :: "error + (string list \<times> frame) list \<Rightarrow> (string list \<times> frame) list" where
  "the_files m = (case m of Inl e \<Rightarrow> [] | Inr ws \<Rightarrow> ws)"

section \<open>An instance of the conversions, and example frames\<close>

text \<open>
  An instance of the parameters for the examples: it reads unsigned decimal numerals
  (\<open>"5"\<close>, \<open>"01"\<close>, \<open>"12.50"\<close>) and ISO timestamps (\<open>"2024-03-05T14:30:00"\<close>) as pandas does,
  prints a whole non-negative number the way a \<open>float64\<close> prints (\<open>5.0\<close>), and declines
  everything else, which no example contains.
\<close>

definition digit_value :: "char \<Rightarrow> nat option" where
  "digit_value ch = map_of (zip ''0123456789'' [0, 1, 2, 3, 4, 5, 6, 7, 8, 9]) ch"

fun parse_digits :: "nat \<Rightarrow> string \<Rightarrow> nat option" where
  "parse_digits acc [] = Some acc"
| "parse_digits acc (ch # s) =
     (case digit_value ch of None \<Rightarrow> None | Some d \<Rightarrow> parse_digits (10 * acc + d) s)"

definition parse_nat :: "string \<Rightarrow> nat option" where
  "parse_nat s = (if s = [] then None else parse_digits 0 s)"

definition parse_decimal :: "string \<Rightarrow> rat option" where
  "parse_decimal s =
     (let whole = takeWhile (\<lambda>ch. ch \<noteq> CHR ''.'') s;
          rest = dropWhile (\<lambda>ch. ch \<noteq> CHR ''.'') s
      in if rest = [] then map_option of_nat (parse_nat whole)
         else (case (parse_nat whole, parse_nat (tl rest)) of
                 (Some a, Some b) \<Rightarrow> Some (of_nat a + of_nat b / 10 ^ length (tl rest))
               | _ \<Rightarrow> None))"

definition parse_iso :: "string \<Rightarrow> timestamp option" where
  "parse_iso s =
     (if length s = 19 \<and> s ! 4 = CHR ''-'' \<and> s ! 7 = CHR ''-''
         \<and> (s ! 10 = CHR ''T'' \<or> s ! 10 = CHR '' '') \<and> s ! 13 = CHR '':'' \<and> s ! 16 = CHR '':''
      then
        (case (parse_nat (take 4 s), parse_nat (take 2 (drop 5 s)), parse_nat (take 2 (drop 8 s)),
               parse_nat (take 2 (drop 11 s)), parse_nat (take 2 (drop 14 s)),
               parse_nat (take 2 (drop 17 s))) of
           (Some y, Some m, Some d, Some h, Some mi, Some se) \<Rightarrow>
             if 1 \<le> m \<and> m \<le> 12 \<and> 1 \<le> d \<and> d \<le> 31 \<and> h < 24 \<and> mi < 60 \<and> se < 60
             then Some \<lparr> year = y, month = m, day = d, hour = h, minute = mi, second = se \<rparr>
             else None
         | _ \<Rightarrow> None)
      else None)"

fun print_cell :: "cell \<Rightarrow> string" where
  "print_cell (Num x) =
     (if 0 \<le> x \<and> of_int \<lfloor>x\<rfloor> = x then show_nat (nat \<lfloor>x\<rfloor>) @ ''.0'' else ''?'')"
| "print_cell (Bool b) = (if b then ''True'' else ''False'')"
| "print_cell v = ''?''"

definition example_pandas :: pandas where
  "example_pandas =
     \<lparr> parse_number = parse_decimal,
       parse_datetime = parse_iso,
       datetime_of_number = (\<lambda>x. None),
       number_of_datetime = (\<lambda>t. 0),
       text_of = print_cell \<rparr>"

text \<open>A row given by its cells; it reads \<open>NA\<close> at every other column.\<close>

definition row_of :: "(string \<times> cell) list \<Rightarrow> row" where
  "row_of kvs c = (case map_of kvs c of None \<Rightarrow> NA | Some v \<Rightarrow> v)"

text \<open>The frame returned, for stating what a call returned; the empty frame if it raised.\<close>

definition the_frame :: "error + frame \<Rightarrow> frame" where
  "the_frame m = (case m of Inl e \<Rightarrow> \<lparr> columns = [], rows = [] \<rparr> | Inr df \<Rightarrow> df)"

definition raw_frame :: frame where
  "raw_frame =
     \<lparr> columns = [''transaction_id'', ''truck_name'', ''payment_method'', ''total'', ''at''],
       rows =
         [row_of [(''transaction_id'', Num 1), (''truck_name'', Str '' Burrito Madness ''),
                  (''payment_method'', Str ''Cash''), (''total'', Str ''500''),
                  (''at'', Str ''2024-03-05T14:30:00'')],
          row_of [(''transaction_id'', Num 2), (''truck_name'', Str ''Kings of Kebabs''),
                  (''payment_method'', Str ''card''), (''total'', Str ''void''),
                  (''at'', Str ''2024-03-05T15:10:00'')],
          row_of [(''transaction_id'', Num 1), (''truck_name'', Str ''Kings of Kebabs''),
                  (''payment_method'', Str ''card''), (''total'', Str ''900''),
                  (''at'', Str ''2024-03-05T16:00:00'')]] \<rparr>"

definition no_method_frame :: frame where
  "no_method_frame =
     \<lparr> columns = [''transaction_id'', ''total'', ''at''],
       rows = [row_of [(''transaction_id'', Num 1), (''total'', Str ''500''),
                       (''at'', Str ''2024-03-05T14:30:00'')]] \<rparr>"

definition void_first_frame :: frame where
  "void_first_frame =
     \<lparr> columns = [''transaction_id'', ''truck_name'', ''payment_method'', ''total'', ''at''],
       rows =
         [row_of [(''transaction_id'', Num 7), (''truck_name'', Str ''A''),
                  (''payment_method'', Str ''cash''), (''total'', Str ''VOID''),
                  (''at'', Str ''2024-03-05T14:30:00'')],
          row_of [(''transaction_id'', Num 7), (''truck_name'', Str ''B''),
                  (''payment_method'', Str ''cash''), (''total'', Str ''500''),
                  (''at'', Str ''2024-03-05T14:31:00'')]] \<rparr>"

definition text_id_frame :: frame where
  "text_id_frame =
     \<lparr> columns = [''transaction_id'', ''truck_name'', ''payment_method'', ''total'', ''at''],
       rows =
         [row_of [(''transaction_id'', Str ''1''), (''truck_name'', Str ''A''),
                  (''payment_method'', Str ''cash''), (''total'', Str ''500''),
                  (''at'', Str ''2024-03-05T14:30:00'')],
          row_of [(''transaction_id'', Str ''01''), (''truck_name'', Str ''B''),
                  (''payment_method'', Str ''card''), (''total'', Str ''700''),
                  (''at'', Str ''2024-03-05T14:31:00'')]] \<rparr>"


definition hours_frame :: frame where
  "hours_frame =
     \<lparr> columns = [''transaction_id'', ''total'', ''at''],
       rows =
         [row_of [(''transaction_id'', Num 1), (''total'', Num 500),
                  (''at'', Str ''2024-03-05T14:30:00'')],
          row_of [(''transaction_id'', Num 2), (''total'', Num 700),
                  (''at'', Str ''2024-03-05T15:05:00'')],
          row_of [(''transaction_id'', Num 3), (''total'', Num 900),
                  (''at'', Str ''2024-03-05T14:59:59'')]] \<rparr>"

subsection \<open>Example rows of the dashboard\<close>

definition mix_rows :: "tx list" where
  "mix_rows =
     [\<lparr> transaction_id = Some 1, truck_name = Some ''A'', payment_method = Some ''cash'', total = Some 5 \<rparr>,
      \<lparr> transaction_id = Some 1, truck_name = Some ''A'', payment_method = None, total = Some 5 \<rparr>,
      \<lparr> transaction_id = Some 2, truck_name = Some ''B'', payment_method = Some ''cash'', total = Some 7 \<rparr>]"




definition quartile_perf :: "perf list" where
  "quartile_perf =
     [\<lparr> perf_truck_name = ''A'', revenue = 30, transactions = 3, avg_sale = Some 10, cash_share = 0 \<rparr>,
      \<lparr> perf_truck_name = ''B'', revenue = 10, transactions = 1, avg_sale = Some 10, cash_share = 1 \<rparr>,
      \<lparr> perf_truck_name = ''C'', revenue = 40, transactions = 4, avg_sale = Some 10, cash_share = 0 \<rparr>,
      \<lparr> perf_truck_name = ''D'', revenue = 20, transactions = 2, avg_sale = Some 10, cash_share = 1 \<rparr>]"

section \<open>Properties of the dashboard aggregates\<close>

lemma set_unique [simp]: "set (unique xs) = set xs"
  by (induction xs) auto

lemma distinct_unique [simp]: "distinct (unique xs)"
  by (induction xs) auto

lemma sum_counts_unique:
  "sum_list (map (\<lambda>v. length (filter (\<lambda>x. x = v) xs)) (unique xs)) = length xs"
proof (induction xs)
  case Nil
  then show ?case by simp
next
  case (Cons a xs)
  have split: "\<And>ys. sum_list (map (\<lambda>v. length (filter (\<lambda>x. x = v) (a # xs))) (filter (\<lambda>y. y \<noteq> a) ys))
                 = sum_list (map (\<lambda>v. length (filter (\<lambda>x. x = v) xs)) (filter (\<lambda>y. y \<noteq> a) ys))"
    by (rule arg_cong [where f = sum_list]) (auto intro: map_cong)
  have part: "\<And>ys. distinct ys \<Longrightarrow>
      sum_list (map (\<lambda>v. length (filter (\<lambda>x. x = v) xs)) (filter (\<lambda>y. y \<noteq> a) ys))
        + (if a \<in> set ys then length (filter (\<lambda>x. x = a) xs) else 0)
      = sum_list (map (\<lambda>v. length (filter (\<lambda>x. x = v) xs)) ys)"
  proof -
    fix ys :: "'a list"
    show "distinct ys \<Longrightarrow>
      sum_list (map (\<lambda>v. length (filter (\<lambda>x. x = v) xs)) (filter (\<lambda>y. y \<noteq> a) ys))
        + (if a \<in> set ys then length (filter (\<lambda>x. x = a) xs) else 0)
      = sum_list (map (\<lambda>v. length (filter (\<lambda>x. x = v) xs)) ys)"
      by (induction ys) auto
  qed
  have zero: "a \<notin> set xs \<Longrightarrow> length (filter (\<lambda>x. x = a) xs) = 0"
    by (induction xs) auto
  have "sum_list (map (\<lambda>v. length (filter (\<lambda>x. x = v) (a # xs))) (unique (a # xs)))
        = Suc (length (filter (\<lambda>x. x = a) xs))
          + sum_list (map (\<lambda>v. length (filter (\<lambda>x. x = v) xs)) (filter (\<lambda>y. y \<noteq> a) (unique xs)))"
    using split [of "unique xs"] by simp
  also have "\<dots> = Suc (sum_list (map (\<lambda>v. length (filter (\<lambda>x. x = v) xs)) (unique xs)))"
    using part [of "unique xs"] zero by (cases "a \<in> set xs") auto
  finally show ?case using Cons.IH by simp
qed

lemma sum_list_snd_value_counts: "sum_list (map snd (value_counts xs)) = length xs"
proof -
  have "mset (value_counts xs) = mset (map (\<lambda>v. (v, length (filter (\<lambda>x. x = v) xs))) (unique xs))"
    by (simp add: value_counts_def)
  then have "mset (map snd (value_counts xs))
      = mset (map snd (map (\<lambda>v. (v, length (filter (\<lambda>x. x = v) xs))) (unique xs)))"
    by (metis mset_map)
  then have "sum_list (map snd (value_counts xs))
      = sum_list (map snd (map (\<lambda>v. (v, length (filter (\<lambda>x. x = v) xs))) (unique xs)))"
    by (metis sum_mset_sum_list)
  then show ?thesis by (simp add: o_def sum_counts_unique)
qed

lemma set_value_counts:
  "set (value_counts xs) = (\<lambda>v. (v, length (filter (\<lambda>x. x = v) xs))) ` set xs"
  by (simp add: value_counts_def)

lemma distinct_keys_value_counts: "distinct (map fst (value_counts xs))"
proof -
  have "mset (map fst (value_counts xs)) = mset (unique xs)"
    by (simp add: value_counts_def image_mset.compositionality o_def)
  then show ?thesis
    by (metis distinct_unique mset_eq_imp_distinct_iff)
qed

text \<open>
  C10. The counts returned by \<open>compute_payment_mix\<close> sum to the number of input rows. The
  buckets are the distinct values of the payment-method column, each value once, so every
  row is counted in exactly one bucket; the bucket of a value holds the number of rows (not
  of distinct transaction identifiers) with that value, and the bucket of the missing value
  is labelled \<open>unknown\<close>.
\<close>

theorem compute_payment_mix_counts:
  "sum_list (map snd (compute_payment_mix df)) = length df
   \<and> distinct (map fst (value_counts (map payment_method df)))
   \<and> (\<forall>r \<in> set df.
        (fillna ''unknown'' (payment_method r),
         length (filter (\<lambda>r'. payment_method r' = payment_method r) df))
        \<in> set (compute_payment_mix df))
   \<and> (\<forall>b \<in> set (compute_payment_mix df). \<exists>r \<in> set df.
        b = (fillna ''unknown'' (payment_method r),
             length (filter (\<lambda>r'. payment_method r' = payment_method r) df)))"
proof -
  let ?pm = "map payment_method df"
  have cnt: "\<And>v. length (filter (\<lambda>x. x = v) ?pm) = length (filter (\<lambda>r'. payment_method r' = v) df)"
    by (simp add: length_filter_map o_def)
  have "map snd (compute_payment_mix df) = map snd (value_counts ?pm)"
    by (simp add: compute_payment_mix_def o_def split_def)
  then have a: "sum_list (map snd (compute_payment_mix df)) = length df"
    by (simp add: sum_list_snd_value_counts)
  have set_eq: "set (compute_payment_mix df)
      = (\<lambda>v. (fillna ''unknown'' v, length (filter (\<lambda>r'. payment_method r' = v) df))) ` set ?pm"
    unfolding compute_payment_mix_def set_map set_value_counts image_image
    by (simp add: cnt o_def)
  show ?thesis
    using a distinct_keys_value_counts [of ?pm] unfolding set_eq by auto
qed


theorem compute_payment_mix_counts_witness:
  "compute_payment_mix mix_rows = [(''cash'', 2), (''unknown'', 1)]
   \<and> sum_list (map snd (compute_payment_mix mix_rows)) = length mix_rows
   \<and> list_all (\<lambda>r.
        (fillna ''unknown'' (payment_method r),
         length (filter (\<lambda>r'. payment_method r' = payment_method r) mix_rows))
        \<in> set (compute_payment_mix mix_rows)) mix_rows"
proof -
  have "compute_payment_mix mix_rows = [(''cash'', 2), (''unknown'', 1)]"
    by (simp add: compute_payment_mix_def value_counts_def mix_rows_def fillna_def)
  then show ?thesis
    using compute_payment_mix_counts [of mix_rows] by (simp add: list_all_iff)
qed

subsection \<open>Truck performance\<close>













subsection \<open>Cash share\<close>









subsection \<open>Bottom-quartile flag\<close>

lemma mset_single_list: "mset xs = {#a#} \<Longrightarrow> xs = [a]"
  by (cases xs) auto

text \<open>
  C7. The threshold is the 25th percentile of the revenue column by linear interpolation,
  and the flagged trucks are exactly those whose revenue is at most the threshold. For the
  revenues 10, 20, 30, 40 (in any row order) the threshold is 17.5 and only the truck with
  revenue 10 is flagged.
\<close>

theorem low_rev_bottom_quartile:
  "(\<forall>t. low_rev_threshold truck_perf = Some t \<longrightarrow>
        low_rev truck_perf = filter (\<lambda>r. revenue r \<le> t) truck_perf)
   \<and> (sort (map revenue truck_perf) = [10, 20, 30, 40] \<longrightarrow>
        low_rev_threshold truck_perf = Some (35 / 2)
        \<and> map revenue (low_rev truck_perf) = [10])"
proof -
  have general: "\<forall>t. low_rev_threshold truck_perf = Some t \<longrightarrow>
        low_rev truck_perf = filter (\<lambda>r. revenue r \<le> t) truck_perf"
    by (simp add: low_rev_def)
  have example: "low_rev_threshold truck_perf = Some (35 / 2)
        \<and> map revenue (low_rev truck_perf) = [10]"
    if srt: "sort (map revenue truck_perf) = [10, 20, 30, 40]"
  proof -
    have ne: "map revenue truck_perf \<noteq> []" using srt by auto
    have fl: "\<lfloor>3 / 4 :: rat\<rfloor> = 0" by (rule floor_unique) simp_all
    have ce: "\<lceil>3 / 4 :: rat\<rceil> = 1" by (rule ceiling_unique) simp_all
    have thr: "low_rev_threshold truck_perf = Some (35 / 2)"
      using ne srt by (simp add: low_rev_threshold_def quantile_def Let_def fl ce)
    have m: "mset (map revenue truck_perf) = mset [10, 20, 30, 40 :: rat]"
      using srt by (metis mset_sort)
    have "mset (filter (\<lambda>x. x \<le> 35 / 2) (map revenue truck_perf))
        = filter_mset (\<lambda>x. x \<le> 35 / 2) (mset (map revenue truck_perf))"
      by (simp only: mset_filter)
    also have "\<dots> = filter_mset (\<lambda>x. x \<le> 35 / 2) (mset [10, 20, 30, 40 :: rat])"
      by (simp only: m)
    also have "\<dots> = {#10#}"
      by simp
    finally have "filter (\<lambda>x. x \<le> 35 / 2) (map revenue truck_perf) = [10]"
      by (rule mset_single_list)
    then have "map revenue (low_rev truck_perf) = [10]"
      using thr by (simp add: low_rev_def filter_map o_def)
    with thr show ?thesis by simp
  qed
  show ?thesis using general example by blast
qed

theorem low_rev_bottom_quartile_witness:
  "sort (map revenue quartile_perf) = [10, 20, 30, 40]
   \<and> low_rev_threshold quartile_perf = Some (35 / 2)
   \<and> low_rev quartile_perf = filter (\<lambda>r. revenue r \<le> 35 / 2) quartile_perf
   \<and> map perf_truck_name (low_rev quartile_perf) = [''B'']"
proof -
  have srt: "sort (map revenue quartile_perf) = [10, 20, 30, 40]"
    by (simp add: quartile_perf_def)
  have "low_rev_threshold quartile_perf = Some (35 / 2)"
    using low_rev_bottom_quartile [of quartile_perf] srt by blast
  moreover from this have "low_rev quartile_perf = filter (\<lambda>r. revenue r \<le> 35 / 2) quartile_perf"
    using low_rev_bottom_quartile [of quartile_perf] by blast
  moreover from this have "map perf_truck_name (low_rev quartile_perf) = [''B'']"
    by (simp add: quartile_perf_def)
  ultimately show ?thesis using srt by blast
qed


section \<open>Properties of the cleaning\<close>

subsection \<open>Frame operations and the columns they leave alone\<close>

lemma columns_set_col [simp]: "set (columns (set_col c f df)) = insert c (set (columns df))"
  by (auto simp: set_col_def)

lemma columns_keep [simp]: "columns (keep ok df) = columns df"
  by (simp add: keep_def)

lemma columns_drop_duplicates [simp]: "columns (drop_duplicates c df) = columns df"
  by (simp add: drop_duplicates_def)

lemma column_set_col_other [simp]: "c' \<noteq> c \<Longrightarrow> column c' (set_col c f df) = column c' df"
  by (simp add: column_def set_col_def)

lemma column_set_col_same [simp]: "column c (set_col c f df) = map f (rows df)"
  by (simp add: column_def set_col_def)

lemma column_keep: "set (column c (keep ok df)) \<subseteq> set (column c df)"
  by (auto simp: column_def keep_def)

lemma rows_keep [simp]: "rows (keep ok df) = filter ok (rows df)"
  by (simp add: keep_def)

lemma set_first_by: "set (first_by key rs) \<subseteq> set rs"
  by (induction rs) auto

lemma column_drop_duplicates: "set (column c' (drop_duplicates c df)) \<subseteq> set (column c' df)"
  using set_first_by [of "\<lambda>r. r c" "rows df"] by (auto simp: column_def drop_duplicates_def)

lemma collect_Inr_map:
  "collect xs = Inr ys \<Longrightarrow> xs = map Inr ys"
proof (induction xs arbitrary: ys)
  case Nil
  then show ?case by simp
next
  case (Cons x xs)
  then show ?case by (cases x; cases "collect xs") auto
qed

lemma collect_map_total:
  "\<forall>r \<in> set rs. f r = Inr (g r) \<Longrightarrow> collect (map f rs) = Inr (map g rs)"
  by (induction rs) auto

lemma try_set_col_Inr:
  assumes "try_set_col c f df = Inr d"
  shows "\<exists>g. (\<forall>r \<in> set (rows df). f r = Inr (g r)) \<and> d = set_col c g df"
proof -
  obtain vs where vs: "collect (map f (rows df)) = Inr vs"
    and d: "d = \<lparr> columns = (if c \<in> set (columns df) then columns df else columns df @ [c]),
                  rows = map (\<lambda>(r, v). r(c := v)) (zip (rows df) vs) \<rparr>"
    using assms by (auto simp: try_set_col_def split: sum.splits)
  define g where "g r = (case f r of Inr v \<Rightarrow> v | Inl e \<Rightarrow> NA)" for r
  from vs have eq: "map f (rows df) = map Inr vs" by (rule collect_Inr_map)
  then have len: "length vs = length (rows df)" by (metis length_map)
  have fg: "\<forall>r \<in> set (rows df). f r = Inr (g r)"
  proof
    fix r assume "r \<in> set (rows df)"
    then have "f r \<in> set (map Inr vs)" using eq by (metis image_eqI set_map)
    then show "f r = Inr (g r)" by (auto simp: g_def)
  qed
  then have "map f (rows df) = map Inr (map g (rows df))" by simp
  then have "collect (map f (rows df)) = Inr (map g (rows df))"
    using fg collect_map_total by blast
  with vs have "vs = map g (rows df)" by simp
  then have "map (\<lambda>(r, v). r(c := v)) (zip (rows df) vs) = map (\<lambda>r. r(c := g r)) (rows df)"
    by (simp add: zip_map2 zip_same_conv_map o_def split_def)
  with d fg show ?thesis by (auto simp: set_col_def)
qed

lemma try_set_col_total:
  assumes "\<forall>r \<in> set (rows df). f r = Inr (g r)"
  shows "try_set_col c f df = Inr (set_col c g df)"
proof -
  have "collect (map f (rows df)) = Inr (map g (rows df))"
    using assms by (rule collect_map_total)
  moreover have "map (\<lambda>(r, v). r(c := v)) (zip (rows df) (map g (rows df)))
      = map (\<lambda>r. r(c := g r)) (rows df)"
    by (simp add: zip_map2 zip_same_conv_map o_def split_def)
  ultimately show ?thesis by (simp add: try_set_col_def set_col_def)
qed

lemma and_then_Inr:
  "and_then m f = Inr y \<longleftrightarrow> (\<exists>x. m = Inr x \<and> f x = Inr y)"
  by (cases m) (auto simp: and_then_def)


subsection \<open>What each stage does to a column\<close>

lemma strip_text_col_columns [simp]:
  "set (columns (strip_text_col P c df)) = set (columns df)"
  by (auto simp: strip_text_col_def)

lemma strip_text_col_other: "c' \<noteq> c \<Longrightarrow> column c' (strip_text_col P c df) = column c' df"
  by (simp add: strip_text_col_def)

lemma strip_text_columns [simp]: "set (columns (strip_text P df)) = set (columns df)"
  by (simp add: strip_text_def text_cols_def)

lemma strip_text_other:
  "c' \<notin> set text_cols \<Longrightarrow> column c' (strip_text P df) = column c' df"
  by (simp add: strip_text_def text_cols_def strip_text_col_other)

lemma number_cell_positive:
  "number_cell v \<noteq> NA \<and> positive (number_cell v) \<longleftrightarrow> (\<exists>x. v = Some x \<and> 0 < x)"
  by (cases v) (auto simp: number_cell_def positive_def)

lemma total_handling_Inr:
  assumes "total_handling P df = Inr d"
  shows "''total'' \<in> set (columns df)"
    and "set (columns d) = set (columns df)"
    and "\<forall>v \<in> set (column ''total'' d). \<exists>x. v = Num x \<and> 0 < x"
    and "c' \<noteq> ''total'' \<Longrightarrow> set (column c' d) \<subseteq> set (column c' df)"
proof -
  show p: "''total'' \<in> set (columns df)"
    using assms by (auto simp: total_handling_def split: if_splits)
  let ?d3 = "set_col ''total'' (\<lambda>r. number_cell (to_numeric P (r ''total'')))
              (set_col ''total'' (\<lambda>r. void_to_na (r ''total''))
                (set_col ''total'' (\<lambda>r. str_strip (astype_string P (r ''total''))) df))"
  from assms p have d: "d = keep (\<lambda>r. r ''total'' \<noteq> NA \<and> positive (r ''total'')) ?d3"
    by (simp add: total_handling_def Let_def)
  show "set (columns d) = set (columns df)"
    using p by (auto simp: d)
  show "\<forall>v \<in> set (column ''total'' d). \<exists>x. v = Num x \<and> 0 < x"
    unfolding d by (auto simp: column_def positive_def split: cell.splits)
  show "set (column c' d) \<subseteq> set (column c' df)" if "c' \<noteq> ''total''"
  proof -
    have "set (column c' d) \<subseteq> set (column c' ?d3)" unfolding d by (rule column_keep)
    also have "column c' ?d3 = column c' df" using that by simp
    finally show ?thesis .
  qed
qed

lemma timestamp_handling_Inr:
  assumes "timestamp_handling P df = Inr d"
  shows "''at'' \<in> set (columns df)"
    and "set (columns d) = set (columns df)"
    and "\<forall>v \<in> set (column ''at'' d). \<exists>t. v = Time t"
    and "c' \<noteq> ''at'' \<Longrightarrow> set (column c' d) \<subseteq> set (column c' df)"
proof -
  show p: "''at'' \<in> set (columns df)"
    using assms by (auto simp: timestamp_handling_def split: if_splits)
  from assms p obtain d1 where d1: "try_set_col ''at'' (datetime_col P ''at'') df = Inr d1"
    and d: "d = keep (\<lambda>r. r ''at'' \<noteq> NA) d1"
    by (auto simp: timestamp_handling_def and_then_Inr)
  from try_set_col_Inr [OF d1] obtain g
    where g: "\<forall>r \<in> set (rows df). datetime_col P ''at'' r = Inr (g r)"
      and d1': "d1 = set_col ''at'' g df"
    by blast
  show "set (columns d) = set (columns df)"
    using p by (auto simp: d d1')
  have cellform: "(\<exists>t. g r = Time t) \<or> g r = NA" if "r \<in> set (rows df)" for r
  proof -
    from g that have "datetime_col P ''at'' r = Inr (g r)" by blast
    then obtain v where "datetime_cell v = g r"
      by (cases "to_datetime P (r ''at'')") (auto simp: datetime_col_def)
    then have "g r = datetime_cell v" by simp
    then show ?thesis
      by (cases v) (simp_all add: datetime_cell_def)
  qed
  show "\<forall>v \<in> set (column ''at'' d). \<exists>t. v = Time t"
    unfolding d d1' using cellform by (fastforce simp: column_def set_col_def)
  show "set (column c' d) \<subseteq> set (column c' df)" if "c' \<noteq> ''at''"
  proof -
    have "set (column c' d) \<subseteq> set (column c' d1)" unfolding d by (rule column_keep)
    also have "column c' d1 = column c' df" using that by (simp add: d1')
    finally show ?thesis .
  qed
qed

lemma keep_set_col_other:
  "c' \<noteq> c \<Longrightarrow> set (column c' (keep ok (set_col c f df))) \<subseteq> set (column c' df)"
  using column_keep [of c' ok "set_col c f df"] by simp

lemma check_has_card_reader_props:
  "set (columns (check_has_card_reader P df)) = set (columns df)"
  "c' \<noteq> ''has_card_reader'' \<Longrightarrow>
     set (column c' (check_has_card_reader P df)) \<subseteq> set (column c' df)"
  by (auto simp: check_has_card_reader_def dest: keep_set_col_other [THEN subsetD, rotated])

lemma check_fsa_rating_props:
  "set (columns (check_fsa_rating P df)) = set (columns df)"
  "c' \<noteq> ''fsa_rating'' \<Longrightarrow>
     set (column c' (check_fsa_rating P df)) \<subseteq> set (column c' df)"
  by (auto simp: check_fsa_rating_def dest: keep_set_col_other [THEN subsetD, rotated])

lemma check_payment_method_props:
  "set (columns (check_payment_method df)) = set (columns df)"
  "c' \<noteq> ''payment_method'' \<Longrightarrow>
     set (column c' (check_payment_method df)) \<subseteq> set (column c' df)"
  "''payment_method'' \<in> set (columns df) \<Longrightarrow>
     set (column ''payment_method'' (check_payment_method df)) \<subseteq> {Str ''cash'', Str ''card''}"
proof -
  show "set (columns (check_payment_method df)) = set (columns df)"
    by (auto simp: check_payment_method_def)
  show "set (column c' (check_payment_method df)) \<subseteq> set (column c' df)"
    if "c' \<noteq> ''payment_method''"
    using that keep_set_col_other [of c' "''payment_method''"]
    by (simp add: check_payment_method_def)
  show "set (column ''payment_method'' (check_payment_method df)) \<subseteq> {Str ''cash'', Str ''card''}"
    if "''payment_method'' \<in> set (columns df)"
    using that by (auto simp: check_payment_method_def column_def)
qed

lemma domain_checks_props:
  "set (columns (domain_checks P df)) = set (columns df)"
  "c' \<notin> {''has_card_reader'', ''fsa_rating'', ''payment_method''} \<Longrightarrow>
     set (column c' (domain_checks P df)) \<subseteq> set (column c' df)"
  "''payment_method'' \<in> set (columns df) \<Longrightarrow>
     set (column ''payment_method'' (domain_checks P df)) \<subseteq> {Str ''cash'', Str ''card''}"
proof -
  show "set (columns (domain_checks P df)) = set (columns df)"
    by (simp add: domain_checks_def check_payment_method_props check_fsa_rating_props
        check_has_card_reader_props)
  show "set (column c' (domain_checks P df)) \<subseteq> set (column c' df)"
    if "c' \<notin> {''has_card_reader'', ''fsa_rating'', ''payment_method''}"
  proof -
    have "set (column c' (domain_checks P df))
        \<subseteq> set (column c' (check_fsa_rating P (check_has_card_reader P df)))"
      unfolding domain_checks_def using that by (intro check_payment_method_props(2)) simp
    also have "\<dots> \<subseteq> set (column c' (check_has_card_reader P df))"
      using that by (intro check_fsa_rating_props(2)) simp
    also have "\<dots> \<subseteq> set (column c' df)"
      using that by (intro check_has_card_reader_props(2)) simp
    finally show ?thesis .
  qed
  show "set (column ''payment_method'' (domain_checks P df)) \<subseteq> {Str ''cash'', Str ''card''}"
    if "''payment_method'' \<in> set (columns df)"
    unfolding domain_checks_def
    by (rule check_payment_method_props(3))
       (simp add: check_fsa_rating_props check_has_card_reader_props that)
qed

lemma remove_duplicates_props:
  "columns (remove_duplicates df) = columns df"
  "set (column c' (remove_duplicates df)) \<subseteq> set (column c' df)"
  using column_drop_duplicates [of c' "''transaction_id''" df]
  by (auto simp: remove_duplicates_def)

lemma cast_int_col_Inr:
  assumes "cast_int_col P c df = Inr d"
  shows "set (columns d) = set (columns df)"
    and "c' \<noteq> c \<Longrightarrow> column c' d = column c' df"
proof -
  have "set (columns d) = set (columns df) \<and> (c' \<noteq> c \<longrightarrow> column c' d = column c' df)"
  proof (cases "c \<in> set (columns df)")
    case True
    with assms have "try_set_col c (\<lambda>r. astype_Int64 (to_numeric P (r c))) df = Inr d"
      by (simp add: cast_int_col_def)
    from try_set_col_Inr [OF this] obtain g where "d = set_col c g df" by blast
    with True show ?thesis by auto
  next
    case False
    with assms show ?thesis by (simp add: cast_int_col_def)
  qed
  then show "set (columns d) = set (columns df)"
    and "c' \<noteq> c \<Longrightarrow> column c' d = column c' df"
    by simp_all
qed

lemma cast_int_cols_Inr:
  "cast_int_cols P cs df = Inr d \<Longrightarrow>
     set (columns d) = set (columns df) \<and> (c' \<notin> set cs \<longrightarrow> column c' d = column c' df)"
proof (induction cs arbitrary: df)
  case Nil
  then show ?case by simp
next
  case (Cons c cs)
  from Cons.prems obtain d1 where d1: "cast_int_col P c df = Inr d1"
    and rest: "cast_int_cols P cs d1 = Inr d"
    by (auto simp: and_then_Inr)
  from Cons.IH [OF rest] cast_int_col_Inr(1) [OF d1] cast_int_col_Inr(2) [OF d1, of c']
  show ?case by auto
qed

lemma cast_boolean_props:
  "set (columns (cast_boolean df)) = set (columns df)"
  "c' \<noteq> ''has_card_reader'' \<Longrightarrow> column c' (cast_boolean df) = column c' df"
  by (auto simp: cast_boolean_def)

lemma set_col_total_float64 [simp]:
  "column c' (set_col ''total'' (\<lambda>r. astype_float64 (r ''total'')) df) = column c' df"
  by (simp add: astype_float64_def column_def set_col_def o_def)

lemma type_cast_Inr:
  assumes "type_cast P df = Inr d" and "''total'' \<in> set (columns df)"
  shows "set (columns d) = set (columns df)"
    and "c' \<notin> set int_cols \<Longrightarrow> column c' d = column c' df"
proof -
  from assms(1) obtain d1 where d1: "cast_int_cols P int_cols df = Inr d1"
    and d: "d = cast_boolean (set_col ''total'' (\<lambda>r. astype_float64 (r ''total'')) d1)"
    by (auto simp: type_cast_def and_then_Inr)
  from cast_int_cols_Inr [OF d1, of c']
  have c1: "set (columns d1) = set (columns df)"
    and o1: "c' \<notin> set int_cols \<Longrightarrow> column c' d1 = column c' df"
    by simp_all
  show "set (columns d) = set (columns df)"
    using assms(2) by (auto simp: d cast_boolean_props c1)
  show "column c' d = column c' df" if "c' \<notin> set int_cols"
    using that o1 by (simp add: d cast_boolean_props int_cols_def)
qed

lemma reorder_props [simp]:
  "column c' (reorder df) = column c' df"
  "set (columns (reorder df)) = set (columns df)"
  by (auto simp: reorder_def column_def)

text \<open>
  C1 (as amended). Every record of a frame returned by \<open>clean_transactions\<close> has a numeric
  \<open>total\<close> strictly greater than 0 and a parsed timestamp \<open>at\<close>; when the input frame has a
  \<open>payment_method\<close> column, its payment method is \<open>cash\<close> or \<open>card\<close>.
\<close>

theorem clean_transactions_survivors:
  assumes "clean_transactions P df = Inr out"
  shows "(\<forall>r \<in> set (rows out). (\<exists>x. r ''total'' = Num x \<and> 0 < x) \<and> (\<exists>t. r ''at'' = Time t))
       \<and> (''payment_method'' \<in> set (columns df) \<longrightarrow>
            (\<forall>r \<in> set (rows out). r ''payment_method'' = Str ''cash''
                                 \<or> r ''payment_method'' = Str ''card''))"
proof -
  from assms obtain v d2 where v: "validated P df = Inr v"
    and d2: "type_cast P (remove_duplicates v) = Inr d2" and out: "out = reorder d2"
    by (auto simp: clean_transactions_def and_then_Inr)
  from v obtain a b where a: "total_handling P (strip_text P df) = Inr a"
    and b: "timestamp_handling P a = Inr b" and vb: "v = domain_checks P b"
    by (auto simp: validated_def and_then_Inr)
  have cols_b: "set (columns b) = set (columns df)"
    using total_handling_Inr(2) [OF a] timestamp_handling_Inr(2) [OF b] by simp
  have total_v: "''total'' \<in> set (columns (remove_duplicates v))"
    using total_handling_Inr(1) [OF a] cols_b
    by (simp add: remove_duplicates_props vb domain_checks_props)
  have keep_col: "set (column c out) \<subseteq> set (column c v)" if "c \<notin> set int_cols" for c
  proof -
    have "column c out = column c (remove_duplicates v)"
      using type_cast_Inr(2) [OF d2 total_v that] by (simp add: out)
    then show ?thesis using remove_duplicates_props(2) [of c v] by simp
  qed
  have "set (column ''total'' out) \<subseteq> set (column ''total'' v)"
    by (rule keep_col) (simp add: int_cols_def)
  also have "\<dots> \<subseteq> set (column ''total'' b)"
    unfolding vb by (rule domain_checks_props(2)) simp
  also have "\<dots> \<subseteq> set (column ''total'' a)"
    by (rule timestamp_handling_Inr(4) [OF b]) simp
  finally have t: "\<forall>r \<in> set (rows out). \<exists>x. r ''total'' = Num x \<and> 0 < x"
    using total_handling_Inr(3) [OF a] by (auto simp: column_def)
  have "set (column ''at'' out) \<subseteq> set (column ''at'' v)"
    by (rule keep_col) (simp add: int_cols_def)
  also have "\<dots> \<subseteq> set (column ''at'' b)"
    unfolding vb by (rule domain_checks_props(2)) simp
  finally have at: "\<forall>r \<in> set (rows out). \<exists>t. r ''at'' = Time t"
    using timestamp_handling_Inr(3) [OF b] by (auto simp: column_def)
  have pm: "\<forall>r \<in> set (rows out). r ''payment_method'' = Str ''cash''
                                 \<or> r ''payment_method'' = Str ''card''"
    if "''payment_method'' \<in> set (columns df)"
  proof -
    have "set (column ''payment_method'' out) \<subseteq> set (column ''payment_method'' v)"
      by (rule keep_col) (simp add: int_cols_def)
    also have "\<dots> \<subseteq> {Str ''cash'', Str ''card''}"
      unfolding vb by (rule domain_checks_props(3)) (simp add: cols_b that)
    finally show ?thesis by (auto simp: column_def)
  qed
  show ?thesis using t at pm by blast
qed


lemma returned_the_frame: "\<not> isl m \<Longrightarrow> m = Inr (the_frame m)"
  by (cases m) (simp_all add: the_frame_def)

lemma column_the_frame_returned: "column c (the_frame m) \<noteq> [] \<Longrightarrow> \<not> isl m"
  by (cases m) (simp_all add: the_frame_def column_def)

lemma clean_raw_frame:
  "column ''total'' (the_frame (clean_transactions example_pandas raw_frame)) = [Num 500]"
  "column ''transaction_id'' (the_frame (clean_transactions example_pandas raw_frame)) = [Num 1]"
  by code_simp+

lemma clean_raw_frame_returned:
  "clean_transactions example_pandas raw_frame
     = Inr (the_frame (clean_transactions example_pandas raw_frame))"
  by (rule returned_the_frame, rule column_the_frame_returned [of "''total''"])
     (simp add: clean_raw_frame)

theorem clean_transactions_survivors_witness:
  "clean_transactions example_pandas raw_frame
     = Inr (the_frame (clean_transactions example_pandas raw_frame))
   \<and> ''payment_method'' \<in> set (columns raw_frame)
   \<and> length (rows (the_frame (clean_transactions example_pandas raw_frame))) = 1
   \<and> list_all (\<lambda>r. (\<exists>x. r ''total'' = Num x \<and> 0 < x) \<and> (\<exists>t. r ''at'' = Time t)
                  \<and> (r ''payment_method'' = Str ''cash'' \<or> r ''payment_method'' = Str ''card''))
        (rows (the_frame (clean_transactions example_pandas raw_frame)))"
proof -
  note ret = clean_raw_frame_returned
  have pm: "''payment_method'' \<in> set (columns raw_frame)"
    by (simp add: raw_frame_def)
  have "length (column ''total'' (the_frame (clean_transactions example_pandas raw_frame))) = 1"
    by (simp add: clean_raw_frame(1))
  then have len: "length (rows (the_frame (clean_transactions example_pandas raw_frame))) = 1"
    by (simp add: column_def)
  show ?thesis
    using ret pm len clean_transactions_survivors [OF ret] by (simp add: list_all_iff)
qed

text \<open>
  C1 as stated fails on a frame without a \<open>payment_method\<close> column: the domain check is
  skipped, and the surviving record has no payment method at all.
\<close>

theorem clean_transactions_survivors_counterexample:
  "columns (the_frame (clean_transactions example_pandas no_method_frame))
     = [''transaction_id'', ''at'', ''total'']
   \<and> column ''total'' (the_frame (clean_transactions example_pandas no_method_frame)) = [Num 500]
   \<and> column ''payment_method'' (the_frame (clean_transactions example_pandas no_method_frame)) = [NA]"
  by code_simp

subsection \<open>Duplicates\<close>

lemma filter_first_by:
  "filter (\<lambda>r. key r = k) (first_by key rs) = take 1 (filter (\<lambda>r. key r = k) rs)"
proof (induction rs)
  case Nil
  then show ?case by simp
next
  case (Cons r rs)
  show ?case
  proof (cases "key r = k")
    case True
    then have "filter (\<lambda>r'. key r' = k) (filter (\<lambda>r'. key r' \<noteq> key r) (first_by key rs)) = []"
      by (simp add: filter_empty_conv)
    with True show ?thesis by simp
  next
    case False
    then have "filter (\<lambda>r'. key r' = k) (filter (\<lambda>r'. key r' \<noteq> key r) (first_by key rs))
        = filter (\<lambda>r'. key r' = k) (first_by key rs)"
      by (auto intro: filter_cong)
    with False Cons.IH show ?thesis by simp
  qed
qed

lemma subseq_first_by: "subseq (first_by key rs) rs"
proof (induction rs)
  case Nil
  then show ?case by simp
next
  case (Cons r rs)
  have "subseq (filter (\<lambda>r'. key r' \<noteq> key r) (first_by key rs)) (first_by key rs)"
    by simp
  then have "subseq (filter (\<lambda>r'. key r' \<noteq> key r) (first_by key rs)) rs"
    using Cons.IH by (rule subseq_order.trans)
  then show ?case by simp
qed

lemma first_by_distinct: "distinct (map key rs) \<Longrightarrow> first_by key rs = rs"
proof (induction rs)
  case Nil
  then show ?case by simp
next
  case (Cons r rs)
  then have "key r \<notin> key ` set rs" by simp
  then have "filter (\<lambda>r'. key r' \<noteq> key r) rs = rs"
    unfolding filter_id_conv by (metis image_eqI)
  with Cons show ?case by simp
qed

lemma cast_int_col_same:
  assumes "cast_int_col P c df = Inr d" and "c \<in> set (columns df)"
  shows "map Inr (column c d) = map (\<lambda>v. astype_Int64 (to_numeric P v)) (column c df)"
proof -
  from assms have "try_set_col c (\<lambda>r. astype_Int64 (to_numeric P (r c))) df = Inr d"
    by (simp add: cast_int_col_def)
  from try_set_col_Inr [OF this] obtain g
    where g: "\<forall>r \<in> set (rows df). astype_Int64 (to_numeric P (r c)) = Inr (g r)"
      and d: "d = set_col c g df"
    by blast
  have "map Inr (column c d) = map (\<lambda>r. Inr (g r)) (rows df)"
    by (simp add: d o_def)
  also have "\<dots> = map (\<lambda>r. astype_Int64 (to_numeric P (r c))) (rows df)"
    using g by (intro map_cong) simp_all
  finally show ?thesis by (simp add: column_def o_def)
qed

lemma cast_int_cols_same:
  "cast_int_cols P cs df = Inr d \<Longrightarrow> distinct cs \<Longrightarrow> c \<in> set cs \<Longrightarrow> c \<in> set (columns df) \<Longrightarrow>
     map Inr (column c d) = map (\<lambda>v. astype_Int64 (to_numeric P v)) (column c df)"
proof (induction cs arbitrary: df)
  case Nil
  then show ?case by simp
next
  case (Cons c0 cs)
  from Cons.prems(1) obtain d1 where d1: "cast_int_col P c0 df = Inr d1"
    and rest: "cast_int_cols P cs d1 = Inr d"
    by (auto simp: and_then_Inr)
  show ?case
  proof (cases "c = c0")
    case True
    then have "c \<notin> set cs" using Cons.prems(2) by simp
    then have "column c d = column c d1"
      using cast_int_cols_Inr [OF rest, of c] by simp
    then show ?thesis
      using cast_int_col_same [OF d1] Cons.prems(4) True by simp
  next
    case False
    then have "column c d1 = column c df"
      using cast_int_col_Inr(2) [OF d1] by simp
    moreover have "c \<in> set (columns d1)"
      using cast_int_col_Inr(1) [OF d1] Cons.prems(4) by simp
    ultimately show ?thesis
      using Cons.IH [OF rest] Cons.prems(2,3) False by simp
  qed
qed

text \<open>
  C2 (as amended). When the input has a \<open>transaction_id\<close> column, the records of the
  cleaned frame are, in input order, the first occurrences of each transaction identifier
  among the rows that passed the validity rules: for every identifier, of the valid rows
  that share it exactly the first one survives. The surviving rows keep their cells, except
  that the integer columns are cast.
\<close>

theorem clean_transactions_first_valid_occurrence:
  assumes "clean_transactions P df = Inr out" and "''transaction_id'' \<in> set (columns df)"
  shows "\<exists>v. validated P df = Inr v
     \<and> subseq (first_by (\<lambda>r. r ''transaction_id'') (rows v)) (rows v)
     \<and> (\<forall>k. filter (\<lambda>r. r ''transaction_id'' = k) (first_by (\<lambda>r. r ''transaction_id'') (rows v))
             = take 1 (filter (\<lambda>r. r ''transaction_id'' = k) (rows v)))
     \<and> (\<forall>c. c \<notin> set int_cols \<longrightarrow>
             column c out = map (\<lambda>r. r c) (first_by (\<lambda>r. r ''transaction_id'') (rows v)))
     \<and> map Inr (column ''transaction_id'' out)
         = map (\<lambda>r. astype_Int64 (to_numeric P (r ''transaction_id'')))
             (first_by (\<lambda>r. r ''transaction_id'') (rows v))"
proof -
  from assms(1) obtain v d2 where v: "validated P df = Inr v"
    and d2: "type_cast P (remove_duplicates v) = Inr d2" and out: "out = reorder d2"
    by (auto simp: clean_transactions_def and_then_Inr)
  from v obtain a b where a: "total_handling P (strip_text P df) = Inr a"
    and b: "timestamp_handling P a = Inr b" and vb: "v = domain_checks P b"
    by (auto simp: validated_def and_then_Inr)
  have cols_v: "set (columns v) = set (columns df)"
    using total_handling_Inr(2) [OF a] timestamp_handling_Inr(2) [OF b]
    by (simp add: vb domain_checks_props)
  then have tid: "''transaction_id'' \<in> set (columns v)" using assms(2) by simp
  then have rd: "remove_duplicates v = drop_duplicates ''transaction_id'' v"
    by (simp add: remove_duplicates_def)
  have total_v: "''total'' \<in> set (columns (remove_duplicates v))"
    using total_handling_Inr(1) [OF a] cols_v by (simp add: remove_duplicates_props)
  have other: "column c out = map (\<lambda>r. r c) (first_by (\<lambda>r. r ''transaction_id'') (rows v))"
    if "c \<notin> set int_cols" for c
  proof -
    have "column c out = column c d2" by (simp add: out)
    also have "\<dots> = column c (remove_duplicates v)"
      using d2 total_v that by (rule type_cast_Inr(2))
    finally show ?thesis by (simp add: rd column_def drop_duplicates_def)
  qed
  from d2 obtain d1 where d1: "cast_int_cols P int_cols (remove_duplicates v) = Inr d1"
    and d2': "d2 = cast_boolean (set_col ''total'' (\<lambda>r. astype_float64 (r ''total'')) d1)"
    by (auto simp: type_cast_def and_then_Inr)
  have "column ''transaction_id'' out = column ''transaction_id'' d2"
    by (simp add: out)
  also have "\<dots> = column ''transaction_id'' d1"
    by (simp add: d2' cast_boolean_props)
  finally have "column ''transaction_id'' out = column ''transaction_id'' d1" .
  moreover have "map Inr (column ''transaction_id'' d1)
      = map (\<lambda>v. astype_Int64 (to_numeric P v)) (column ''transaction_id'' (remove_duplicates v))"
    using d1 by (rule cast_int_cols_same) (simp_all add: int_cols_def remove_duplicates_props tid)
  ultimately have ids: "map Inr (column ''transaction_id'' out)
         = map (\<lambda>r. astype_Int64 (to_numeric P (r ''transaction_id'')))
             (first_by (\<lambda>r. r ''transaction_id'') (rows v))"
    by (simp add: rd column_def drop_duplicates_def o_def)
  show ?thesis
  proof (intro exI [of _ v] conjI allI impI)
    show "validated P df = Inr v" by (rule v)
    show "subseq (first_by (\<lambda>r. r ''transaction_id'') (rows v)) (rows v)"
      by (rule subseq_first_by)
    show "filter (\<lambda>r. r ''transaction_id'' = k) (first_by (\<lambda>r. r ''transaction_id'') (rows v))
             = take 1 (filter (\<lambda>r. r ''transaction_id'' = k) (rows v))" for k
      by (rule filter_first_by)
    show "column c out = map (\<lambda>r. r c) (first_by (\<lambda>r. r ''transaction_id'') (rows v))"
      if "c \<notin> set int_cols" for c
      using that by (rule other)
    show "map Inr (column ''transaction_id'' out)
         = map (\<lambda>r. astype_Int64 (to_numeric P (r ''transaction_id'')))
             (first_by (\<lambda>r. r ''transaction_id'') (rows v))"
      by (rule ids)
  qed
qed

theorem clean_transactions_first_valid_occurrence_witness:
  "clean_transactions example_pandas raw_frame
     = Inr (the_frame (clean_transactions example_pandas raw_frame))
   \<and> ''transaction_id'' \<in> set (columns raw_frame)
   \<and> column ''transaction_id'' raw_frame = [Num 1, Num 2, Num 1]
   \<and> column ''transaction_id'' (the_frame (clean_transactions example_pandas raw_frame)) = [Num 1]
   \<and> (\<exists>v. validated example_pandas raw_frame = Inr v
        \<and> map Inr (column ''transaction_id'' (the_frame (clean_transactions example_pandas raw_frame)))
            = map (\<lambda>r. astype_Int64 (to_numeric example_pandas (r ''transaction_id'')))
                (first_by (\<lambda>r. r ''transaction_id'') (rows v)))"
proof -
  have tid: "''transaction_id'' \<in> set (columns raw_frame)"
    by (simp add: raw_frame_def)
  have ids: "column ''transaction_id'' raw_frame = [Num 1, Num 2, Num 1]"
    by (simp add: raw_frame_def column_def row_of_def)
  show ?thesis
    using clean_transactions_first_valid_occurrence [OF clean_raw_frame_returned tid]
      clean_raw_frame_returned tid ids clean_raw_frame(2)
    by blast
qed

text \<open>
  C2 as stated fails when the first of two rows sharing an identifier is not valid: the
  rules drop it before duplicates are looked for, and the second row survives.
\<close>

theorem clean_transactions_first_occurrence_counterexample:
  "column ''transaction_id'' void_first_frame = [Num 7, Num 7]
   \<and> column ''truck_name'' void_first_frame = [Str ''A'', Str ''B'']
   \<and> column ''truck_name'' (the_frame (clean_transactions example_pandas void_first_frame))
       = [Str ''B'']"
  by code_simp


subsection \<open>Cleaning a cleaned frame\<close>

lemma frame_eqI: "columns a = columns b \<Longrightarrow> rows a = rows b \<Longrightarrow> (a::frame) = b"
  by simp

lemma set_col_id:
  "c \<in> set (columns df) \<Longrightarrow> \<forall>r \<in> set (rows df). f r = r c \<Longrightarrow> set_col c f df = df"
  by (rule frame_eqI) (simp_all add: set_col_def map_idI)

lemma set_col_set_col:
  "set_col c g (set_col c f df) = set_col c (\<lambda>r. g (r(c := f r))) df"
  by (rule frame_eqI) (auto simp: set_col_def)

lemma keep_id: "\<forall>r \<in> set (rows df). ok r \<Longrightarrow> keep ok df = df"
  by (rule frame_eqI) (simp_all add: keep_def)

lemma reorder_idem: "reorder (reorder df) = reorder df"
proof (rule frame_eqI)
  have a: "filter (\<lambda>c. c \<notin> set preferred_order) (filter (\<lambda>c. c \<in> set (columns df)) preferred_order) = []"
    by (simp add: filter_empty_conv)
  show "columns (reorder (reorder df)) = columns (reorder df)"
    unfolding reorder_def frame.simps
    apply (simp add: a)
    apply (rule filter_cong)
    apply auto
    done
  show "rows (reorder (reorder df)) = rows (reorder df)"
    by (simp add: reorder_def)
qed

lemma strip_fixed: "(s = [] \<or> (\<not> is_space (hd s) \<and> \<not> is_space (last s))) \<Longrightarrow> strip s = s"
proof (cases "s = []")
  case True
  then show ?thesis by (simp add: strip_def)
next
  case False
  assume "s = [] \<or> (\<not> is_space (hd s) \<and> \<not> is_space (last s))"
  with False have h: "\<not> is_space (hd s)" and l: "\<not> is_space (last s)" by auto
  from False h have "dropWhile is_space s = s" by (cases s) auto
  moreover from False l have "dropWhile is_space (rev s) = rev s"
    by (cases "rev s") (auto simp: last_rev hd_rev) 
  ultimately show ?thesis by (simp add: strip_def)
qed

lemma strip_shape:
  "strip s = [] \<or> (\<not> is_space (hd (strip s)) \<and> \<not> is_space (last (strip s)))"
proof -
  let ?t = "dropWhile is_space s"
  let ?u = "dropWhile is_space (rev ?t)"
  show ?thesis
  proof (cases "?u = []")
    case True
    then show ?thesis by (simp add: strip_def)
  next
    case False
    then have hu: "\<not> is_space (hd ?u)" by (rule hd_dropWhile)
    have tne: "?t \<noteq> []"
    proof
      assume "?t = []"
      then have "?u = []" by (simp only: rev.simps dropWhile.simps)
      with False show False by simp
    qed
    then have ht: "\<not> is_space (hd ?t)" by (rule hd_dropWhile)
    have "last (rev ?u) = hd ?u" using False by (simp add: last_rev)
    then have l: "\<not> is_space (last (strip s))" using hu by (simp add: strip_def)
    obtain ys where ys: "rev ?t = takeWhile is_space (rev ?t) @ ?u" by simp
    have "?t = rev ?u @ rev (takeWhile is_space (rev ?t))"
      by (metis rev_append rev_rev_ident takeWhile_dropWhile_id)
    then have "hd ?t = hd (rev ?u)" using False by (metis hd_append2 rev_is_Nil_conv)
    then have "\<not> is_space (hd (strip s))" using ht by (simp add: strip_def)
    with l show ?thesis by simp
  qed
qed

lemma strip_idem: "strip (strip s) = strip s"
  using strip_shape [of s] by (intro strip_fixed) auto

lemma str_strip_idem:
  "str_strip (astype_string P (str_strip (astype_string P v))) = str_strip (astype_string P v)"
  by (cases v) (simp_all add: strip_idem)

lemma astype_Int64_fix:
  "astype_Int64 y = Inr v \<Longrightarrow> astype_Int64 (to_numeric P v) = Inr v"
  by (cases y) (auto simp: astype_Int64_def split: if_splits)

lemma in_column: "r \<in> set (rows df) \<Longrightarrow> r c \<in> set (column c df)"
  by (simp add: column_def)

lemma column_set_col_cell: "column c (set_col c (\<lambda>r. g (r c)) df) = map g (column c df)"
  by (simp add: column_def set_col_def o_def)

lemma strip_text_col_same:
  "c \<in> set (columns df) \<Longrightarrow>
     column c (strip_text_col P c df) = map (\<lambda>v. str_strip (astype_string P v)) (column c df)"
  by (simp add: strip_text_col_def column_def set_col_def o_def)

lemma strip_text_same:
  assumes "c \<in> set text_cols" and "c \<in> set (columns df)"
  shows "column c (strip_text P df) = map (\<lambda>v. str_strip (astype_string P v)) (column c df)"
proof -
  consider "c = ''payment_method''" | "c = ''truck_name''" | "c = ''truck_description''"
    using assms(1) by (auto simp: text_cols_def)
  then show ?thesis
  proof cases
    case 1
    then show ?thesis using assms(2)
      by (simp add: strip_text_def text_cols_def strip_text_col_other strip_text_col_same)
  next
    case 2
    then show ?thesis using assms(2)
      by (simp add: strip_text_def text_cols_def strip_text_col_other strip_text_col_same)
  next
    case 3
    then show ?thesis using assms(2)
      by (simp add: strip_text_def text_cols_def strip_text_col_other strip_text_col_same)
  qed
qed

lemma check_has_card_reader_cells:
  "''has_card_reader'' \<in> set (columns df) \<Longrightarrow>
     set (column ''has_card_reader'' (check_has_card_reader P df)) \<subseteq> {Num 0, Num 1}"
  by (auto simp: check_has_card_reader_def column_def)

lemma check_fsa_rating_cells:
  "''fsa_rating'' \<in> set (columns df) \<Longrightarrow>
     \<forall>v \<in> set (column ''fsa_rating'' (check_fsa_rating P df)). between 0 5 v"
  by (auto simp: check_fsa_rating_def column_def)

lemma clean_transactions_Inr:
  assumes "clean_transactions P df = Inr out"
  obtains a b v d1 where
    "total_handling P (strip_text P df) = Inr a"
    "timestamp_handling P a = Inr b"
    "v = check_payment_method (check_fsa_rating P (check_has_card_reader P b))"
    "cast_int_cols P int_cols (remove_duplicates v) = Inr d1"
    "out = reorder (cast_boolean (set_col ''total'' (\<lambda>r. astype_float64 (r ''total'')) d1))"
    "set (columns a) = set (columns df)" "set (columns b) = set (columns df)"
    "set (columns v) = set (columns df)" "set (columns d1) = set (columns df)"
    "set (columns out) = set (columns df)"
    "''total'' \<in> set (columns df)" "''at'' \<in> set (columns df)"
proof -
  from assms obtain v d2 where v: "validated P df = Inr v"
    and d2: "type_cast P (remove_duplicates v) = Inr d2" and out: "out = reorder d2"
    by (auto simp: clean_transactions_def and_then_Inr)
  from v obtain a b where a: "total_handling P (strip_text P df) = Inr a"
    and b: "timestamp_handling P a = Inr b" and vb: "v = domain_checks P b"
    by (auto simp: validated_def and_then_Inr)
  from d2 obtain d1 where d1: "cast_int_cols P int_cols (remove_duplicates v) = Inr d1"
    and d2': "d2 = cast_boolean (set_col ''total'' (\<lambda>r. astype_float64 (r ''total'')) d1)"
    by (auto simp: type_cast_def and_then_Inr)
  have ca: "set (columns a) = set (columns df)"
    using total_handling_Inr(2) [OF a] by simp
  have cb: "set (columns b) = set (columns df)"
    using timestamp_handling_Inr(2) [OF b] ca by simp
  have cv: "set (columns v) = set (columns df)"
    using cb by (simp add: vb domain_checks_props)
  have c1: "set (columns d1) = set (columns df)"
    using cast_int_cols_Inr [OF d1, of "''x''"] cv by (simp add: remove_duplicates_props)
  have t: "''total'' \<in> set (columns df)"
    using total_handling_Inr(1) [OF a] by simp
  have at: "''at'' \<in> set (columns df)"
    using timestamp_handling_Inr(1) [OF b] ca by simp
  have co: "set (columns out) = set (columns df)"
    using c1 t by (auto simp: out d2' cast_boolean_props)
  show ?thesis
    using that [OF a b vb [unfolded domain_checks_def] d1 out [unfolded d2'] ca cb cv c1 co t at] .
qed

lemma cast_cells:
  assumes "map Inr (column c d) = map (\<lambda>v. astype_Int64 (to_numeric P v)) (column c e)"
    and "v' \<in> set (column c d)"
  shows "\<exists>v \<in> set (column c e). astype_Int64 (to_numeric P v) = Inr v'"
proof -
  from assms(2) have "(Inr v' :: error + cell) \<in> set (map Inr (column c d))" by simp
  then have "(Inr v' :: error + cell) \<in> set (map (\<lambda>v. astype_Int64 (to_numeric P v)) (column c e))"
    by (simp only: assms(1))
  then show ?thesis by auto
qed

lemma between_cast:
  "between lo hi v0 \<Longrightarrow> astype_Int64 (to_numeric P v0) = Inr v' \<Longrightarrow> v' = v0"
  by (cases v0) (auto simp: between_def astype_Int64_def split: if_splits)

lemma flag_cast:
  "v0 \<in> {Num 0, Num 1} \<Longrightarrow> astype_Int64 (to_numeric P v0) = Inr v' \<Longrightarrow> v' = v0"
  by (auto simp: astype_Int64_def split: if_splits)

lemma clean_transactions_cleaned:
  assumes c: "clean_transactions P df = Inr out"
  shows "cleaned P out"
proof -
  from c obtain a b v d1 where
    a: "total_handling P (strip_text P df) = Inr a" and
    b: "timestamp_handling P a = Inr b" and
    v: "v = check_payment_method (check_fsa_rating P (check_has_card_reader P b))" and
    d1: "cast_int_cols P int_cols (remove_duplicates v) = Inr d1" and
    out: "out = reorder (cast_boolean (set_col ''total'' (\<lambda>r. astype_float64 (r ''total'')) d1))" and
    ca: "set (columns a) = set (columns df)" and cb: "set (columns b) = set (columns df)" and
    cv: "set (columns v) = set (columns df)" and c1: "set (columns d1) = set (columns df)" and
    co: "set (columns out) = set (columns df)" and
    t: "''total'' \<in> set (columns df)" and at: "''at'' \<in> set (columns df)"
    by (rule clean_transactions_Inr)
  let ?h = "check_has_card_reader P b"
  let ?f = "check_fsa_rating P ?h"
  let ?rd = "remove_duplicates v"
  have col_out: "column c' out = column c' d1" if "c' \<noteq> ''has_card_reader''" for c'
    using that by (simp add: out cast_boolean_props)
  have col_out_flag: "column ''has_card_reader'' out = map astype_boolean (column ''has_card_reader'' d1)"
    if "''has_card_reader'' \<in> set (columns df)"
  proof -
    let ?e = "set_col ''total'' (\<lambda>r. astype_float64 (r ''total'')) d1"
    have "''has_card_reader'' \<in> set (columns ?e)" using that c1 by simp
    then have eq: "cast_boolean ?e = set_col ''has_card_reader'' (\<lambda>r. astype_boolean (r ''has_card_reader'')) ?e"
      by (simp add: cast_boolean_def)
    have "column ''has_card_reader'' out = column ''has_card_reader'' (cast_boolean ?e)"
      by (simp add: out)
    also have "\<dots> = map astype_boolean (column ''has_card_reader'' ?e)"
      unfolding eq by (rule column_set_col_cell)
    also have "column ''has_card_reader'' ?e = column ''has_card_reader'' d1"
      by simp
    finally show ?thesis .
  qed
  have d1_other: "column c' d1 = column c' ?rd" if "c' \<notin> set int_cols" for c'
    using cast_int_cols_Inr [OF d1, of c'] that by simp
  have d1_cast: "\<exists>v0 \<in> set (column c' v). astype_Int64 (to_numeric P v0) = Inr v'"
    if "c' \<in> set int_cols" "c' \<in> set (columns df)" "v' \<in> set (column c' d1)" for c' v'
  proof -
    have "map Inr (column c' d1) = map (\<lambda>v. astype_Int64 (to_numeric P v)) (column c' ?rd)"
      using d1 by (rule cast_int_cols_same)
                  (use that cv in \<open>simp_all add: int_cols_def remove_duplicates_props\<close>)
    from cast_cells [OF this that(3)] remove_duplicates_props(2) [of c' v]
    show ?thesis by blast
  qed
  have ro: "reorder out = out"
    unfolding out by (rule reorder_idem)
  have "cleaned_row P (set (columns out)) r" if r: "r \<in> set (rows out)" for r
  proof -
    from clean_transactions_survivors [OF c] r
    have p1: "\<exists>x. r ''total'' = Num x \<and> 0 < x" and p2: "\<exists>t. r ''at'' = Time t"
      and p4: "''payment_method'' \<in> set (columns df) \<Longrightarrow>
                 r ''payment_method'' \<in> {Str ''cash'', Str ''card''}"
      by auto
    have p3: "str_strip (astype_string P (r c')) = r c'"
      if c': "c' \<in> {''truck_name'', ''truck_description''}" and pres: "c' \<in> set (columns df)" for c'
    proof -
      have ni: "c' \<notin> set int_cols" using c' by (auto simp: int_cols_def)
      have "r c' \<in> set (column c' out)" using r by (rule in_column)
      also have "column c' out = column c' ?rd"
      proof -
        have "c' \<noteq> ''has_card_reader''" using c' by auto
        then show ?thesis using col_out [of c'] d1_other [OF ni] by simp
      qed
      also have "set (column c' ?rd) \<subseteq> set (column c' v)"
        by (rule remove_duplicates_props)
      also have "\<dots> \<subseteq> set (column c' ?f)"
        unfolding v using c' by (intro check_payment_method_props(2)) auto
      also have "\<dots> \<subseteq> set (column c' ?h)"
        using c' by (intro check_fsa_rating_props(2)) auto
      also have "\<dots> \<subseteq> set (column c' b)"
        using c' by (intro check_has_card_reader_props(2)) auto
      also have "\<dots> \<subseteq> set (column c' a)"
        using c' by (intro timestamp_handling_Inr(4) [OF b]) auto
      also have "\<dots> \<subseteq> set (column c' (strip_text P df))"
        using c' by (intro total_handling_Inr(4) [OF a]) auto
      also have "column c' (strip_text P df)
          = map (\<lambda>v. str_strip (astype_string P v)) (column c' df)"
        using c' pres by (intro strip_text_same) (auto simp: text_cols_def)
      finally obtain v0 where "r c' = str_strip (astype_string P v0)" by auto
      then show ?thesis by (simp add: str_strip_idem)
    qed
    have p5: "r ''has_card_reader'' \<in> {Bool False, Bool True}"
      if pres: "''has_card_reader'' \<in> set (columns df)"
    proof -
      have "r ''has_card_reader'' \<in> set (column ''has_card_reader'' out)" using r by (rule in_column)
      then obtain v' where v': "v' \<in> set (column ''has_card_reader'' d1)"
        and rv: "r ''has_card_reader'' = astype_boolean v'"
        using col_out_flag [OF pres] by auto
      from d1_cast [OF _ pres v'] obtain v0 where v0: "v0 \<in> set (column ''has_card_reader'' v)"
        and cast: "astype_Int64 (to_numeric P v0) = Inr v'"
        by (auto simp: int_cols_def)
      have "set (column ''has_card_reader'' v) \<subseteq> set (column ''has_card_reader'' ?f)"
        unfolding v by (intro check_payment_method_props(2)) simp
      also have "\<dots> \<subseteq> set (column ''has_card_reader'' ?h)"
        by (intro check_fsa_rating_props(2)) simp
      also have "\<dots> \<subseteq> {Num 0, Num 1}"
        by (rule check_has_card_reader_cells) (simp add: cb pres)
      finally have "v0 \<in> {Num 0, Num 1}" using v0 by blast
      with cast have "v' \<in> {Num 0, Num 1}" using flag_cast by blast
      with rv show ?thesis by auto
    qed
    have p6: "between 0 5 (r ''fsa_rating'')"
      if pres: "''fsa_rating'' \<in> set (columns df)"
    proof -
      have "r ''fsa_rating'' \<in> set (column ''fsa_rating'' out)" using r by (rule in_column)
      then have v': "r ''fsa_rating'' \<in> set (column ''fsa_rating'' d1)"
        by (simp add: col_out)
      from d1_cast [OF _ pres v'] obtain v0 where v0: "v0 \<in> set (column ''fsa_rating'' v)"
        and cast: "astype_Int64 (to_numeric P v0) = Inr (r ''fsa_rating'')"
        by (auto simp: int_cols_def)
      have "set (column ''fsa_rating'' v) \<subseteq> set (column ''fsa_rating'' ?f)"
        unfolding v by (intro check_payment_method_props(2)) simp
      then have "v0 \<in> set (column ''fsa_rating'' ?f)" using v0 by blast
      moreover have "''fsa_rating'' \<in> set (columns ?h)"
        by (simp add: check_has_card_reader_props cb pres)
      ultimately have "between 0 5 v0"
        using check_fsa_rating_cells by blast
      with cast show ?thesis using between_cast by blast
    qed
    have p7: "astype_Int64 (to_numeric P (r c')) = Inr (r c')"
      if c': "c' \<in> {''truck_id'', ''payment_method_id'', ''transaction_id'', ''fsa_rating''}"
        and pres: "c' \<in> set (columns df)" for c'
    proof -
      have "r c' \<in> set (column c' out)" using r by (rule in_column)
      then have v': "r c' \<in> set (column c' d1)"
        using c' by (auto simp: col_out)
      have "c' \<in> set int_cols" using c' by (auto simp: int_cols_def)
      from d1_cast [OF this pres v'] show ?thesis
        using astype_Int64_fix by blast
    qed
    show ?thesis
      unfolding cleaned_row_def co using p1 p2 p3 p4 p5 p6 p7 by blast
  qed
  then show ?thesis
    unfolding cleaned_def using ro t at co by simp
qed

lemma columns_set_col_present: "c \<in> set (columns df) \<Longrightarrow> columns (set_col c f df) = columns df"
  by (simp add: set_col_def)

lemma set_col_cell_compose:
  "set_col c (\<lambda>r. g (r c)) (set_col c (\<lambda>r. f (r c)) df) = set_col c (\<lambda>r. g (f (r c))) df"
  by (simp add: set_col_set_col)

lemma strip_text_col_id:
  "(c \<in> set (columns df) \<Longrightarrow> \<forall>r \<in> set (rows df). str_strip (astype_string P (r c)) = r c) \<Longrightarrow>
     strip_text_col P c df = df"
  by (simp add: strip_text_col_def set_col_id)

lemma cast_int_col_id:
  assumes "c \<in> set (columns df) \<Longrightarrow> \<forall>r \<in> set (rows df). astype_Int64 (to_numeric P (r c)) = Inr (r c)"
  shows "cast_int_col P c df = Inr df"
proof (cases "c \<in> set (columns df)")
  case True
  with assms have "\<forall>r \<in> set (rows df). astype_Int64 (to_numeric P (r c)) = Inr ((\<lambda>r. r c) r)" by simp
  then have "try_set_col c (\<lambda>r. astype_Int64 (to_numeric P (r c))) df = Inr (set_col c (\<lambda>r. r c) df)"
    by (rule try_set_col_total)
  with True show ?thesis by (simp add: cast_int_col_def set_col_id)
next
  case False
  then show ?thesis by (simp add: cast_int_col_def)
qed

lemma method_literals:
  "strip ''cash'' = ''cash''"
  "strip ''card'' = ''card''"
  "map lower_char ''cash'' = ''cash''"
  "map lower_char ''card'' = ''card''"
  by (simp_all add: strip_def is_space_def lower_char_def)

lemma between_number:
  "between lo hi v \<Longrightarrow> number_cell (to_numeric P v) = v"
  by (cases v) (auto simp: between_def number_cell_def)

lemma method_lower:
  "v \<in> {Str ''cash'', Str ''card''} \<Longrightarrow> str_lower v = v"
  by (auto simp: lower_char_def)

lemma cleaned_fixed:
  assumes cl: "cleaned P df"
    and dist: "''transaction_id'' \<in> set (columns df) \<longrightarrow> distinct (column ''transaction_id'' df)"
    and rb: "\<forall>v \<in> set (column ''total'' df). reads_back P v"
  shows "clean_transactions P df = Inr df"
proof -
  let ?cs = "set (columns df)"
  from cl have ro: "reorder df = df" and t: "''total'' \<in> ?cs" and at: "''at'' \<in> ?cs"
    and rows: "\<And>r. r \<in> set (rows df) \<Longrightarrow> cleaned_row P ?cs r"
    by (auto simp: cleaned_def)
  have r_total: "\<forall>r \<in> set (rows df). \<exists>x. r ''total'' = Num x \<and> 0 < x"
    using rows by (simp add: cleaned_row_def)
  have r_at: "\<forall>r \<in> set (rows df). \<exists>t. r ''at'' = Time t"
    using rows by (simp add: cleaned_row_def)
  have r_name: "''truck_name'' \<in> ?cs \<Longrightarrow>
      \<forall>r \<in> set (rows df). str_strip (astype_string P (r ''truck_name'')) = r ''truck_name''"
    using rows by (simp add: cleaned_row_def)
  have r_desc: "''truck_description'' \<in> ?cs \<Longrightarrow>
      \<forall>r \<in> set (rows df).
        str_strip (astype_string P (r ''truck_description'')) = r ''truck_description''"
    using rows by (simp add: cleaned_row_def)
  have r_pm: "''payment_method'' \<in> ?cs \<Longrightarrow>
      \<forall>r \<in> set (rows df). r ''payment_method'' = Str ''cash'' \<or> r ''payment_method'' = Str ''card''"
    using rows by (simp add: cleaned_row_def)
  have r_flag: "''has_card_reader'' \<in> ?cs \<Longrightarrow>
      \<forall>r \<in> set (rows df). r ''has_card_reader'' = Bool False \<or> r ''has_card_reader'' = Bool True"
    using rows by (simp add: cleaned_row_def)
  have r_fsa: "''fsa_rating'' \<in> ?cs \<Longrightarrow> \<forall>r \<in> set (rows df). between 0 5 (r ''fsa_rating'')"
    using rows by (simp add: cleaned_row_def)
  have r_ids: "c \<in> {''truck_id'', ''payment_method_id'', ''transaction_id'', ''fsa_rating''} \<Longrightarrow>
      c \<in> ?cs \<Longrightarrow> \<forall>r \<in> set (rows df). astype_Int64 (to_numeric P (r c)) = Inr (r c)" for c
  proof
    fix r assume c: "c \<in> {''truck_id'', ''payment_method_id'', ''transaction_id'', ''fsa_rating''}"
      and pres: "c \<in> ?cs" and "r \<in> set (rows df)"
    then have "cleaned_row P ?cs r" by (simp add: rows)
    then have "\<forall>c \<in> {''truck_id'', ''payment_method_id'', ''transaction_id'', ''fsa_rating''}.
        c \<in> ?cs \<longrightarrow> astype_Int64 (to_numeric P (r c)) = Inr (r c)"
      unfolding cleaned_row_def by (elim conjE)
    with c pres show "astype_Int64 (to_numeric P (r c)) = Inr (r c)" by (simp only: )
  qed
  have s1: "strip_text P df = df"
  proof -
    have pm: "strip_text_col P ''payment_method'' df = df"
    proof (rule strip_text_col_id, rule ballI)
      fix r assume "''payment_method'' \<in> set (columns df)" and "r \<in> set (rows df)"
      then have "r ''payment_method'' = Str ''cash'' \<or> r ''payment_method'' = Str ''card''"
        using r_pm by blast
      then show "str_strip (astype_string P (r ''payment_method'')) = r ''payment_method''"
        by (auto simp: method_literals)
    qed
    have tn: "strip_text_col P ''truck_name'' df = df"
      by (rule strip_text_col_id) (rule r_name)
    have td: "strip_text_col P ''truck_description'' df = df"
      by (rule strip_text_col_id) (rule r_desc)
    show ?thesis by (simp add: strip_text_def text_cols_def pm tn td)
  qed
  have s2: "total_handling P df = Inr df"
  proof -
    have "set_col ''total'' (\<lambda>r. number_cell (to_numeric P (r ''total'')))
            (set_col ''total'' (\<lambda>r. void_to_na (r ''total''))
              (set_col ''total'' (\<lambda>r. str_strip (astype_string P (r ''total''))) df))
        = set_col ''total''
            (\<lambda>r. number_cell (to_numeric P (void_to_na (str_strip (astype_string P (r ''total'')))))) df"
      by (simp add: set_col_set_col)
    also have "\<dots> = df"
      by (rule set_col_id [OF t]) (use rb in \<open>auto simp: reads_back_def dest: in_column\<close>)
    finally have e: "set_col ''total'' (\<lambda>r. number_cell (to_numeric P (r ''total'')))
            (set_col ''total'' (\<lambda>r. void_to_na (r ''total''))
              (set_col ''total'' (\<lambda>r. str_strip (astype_string P (r ''total''))) df)) = df" .
    have k: "keep (\<lambda>r. r ''total'' \<noteq> NA \<and> positive (r ''total'')) df = df"
      by (rule keep_id) (use r_total in \<open>fastforce simp: positive_def\<close>)
    show ?thesis using t by (simp add: total_handling_def Let_def e k)
  qed
  have s3: "timestamp_handling P df = Inr df"
  proof -
    have "\<forall>r \<in> set (rows df). datetime_col P ''at'' r = Inr ((\<lambda>r. r ''at'') r)"
      using r_at by (fastforce simp: datetime_col_def datetime_cell_def)
    then have "try_set_col ''at'' (datetime_col P ''at'') df = Inr (set_col ''at'' (\<lambda>r. r ''at'') df)"
      by (rule try_set_col_total)
    then have e: "try_set_col ''at'' (datetime_col P ''at'') df = Inr df"
      using at by (simp add: set_col_id)
    have k: "keep (\<lambda>r. r ''at'' \<noteq> NA) df = df"
      by (rule keep_id) (use r_at in fastforce)
    show ?thesis using at by (simp add: timestamp_handling_def e and_then_def k)
  qed
  define df' where "df' =
    (if ''has_card_reader'' \<in> ?cs
     then set_col ''has_card_reader'' (\<lambda>r. number_cell (to_numeric P (r ''has_card_reader''))) df
     else df)"
  have cols': "columns df' = columns df"
    by (simp add: df'_def columns_set_col_present)
  have rows': "\<exists>r \<in> set (rows df). (\<forall>c. c \<noteq> ''has_card_reader'' \<longrightarrow> r' c = r c)
       \<and> (''has_card_reader'' \<in> ?cs \<longrightarrow> r' ''has_card_reader'' \<in> {Num 0, Num 1})"
    if "r' \<in> set (rows df')" for r'
  proof (cases "''has_card_reader'' \<in> ?cs")
    case True
    with that obtain r where r: "r \<in> set (rows df)"
      and r': "r' = r(''has_card_reader'' := number_cell (to_numeric P (r ''has_card_reader'')))"
      by (auto simp: df'_def set_col_def)
    from r_flag [OF True] r have "r ''has_card_reader'' \<in> {Bool False, Bool True}"
      by blast
    then have "r' ''has_card_reader'' \<in> {Num 0, Num 1}"
      by (auto simp: r' number_cell_def)
    with r r' show ?thesis by auto
  next
    case False
    with that show ?thesis by (auto simp: df'_def)
  qed
  have s4: "check_has_card_reader P df = df'"
  proof (cases "''has_card_reader'' \<in> ?cs")
    case True
    then have d: "df' = set_col ''has_card_reader''
        (\<lambda>r. number_cell (to_numeric P (r ''has_card_reader''))) df"
      by (simp add: df'_def)
    have "keep (\<lambda>r. r ''has_card_reader'' \<in> set [Num 0, Num 1]) df' = df'"
      by (rule keep_id) (use rows' True in fastforce)
    then show ?thesis using True by (simp add: check_has_card_reader_def flip: d)
  next
    case False
    then show ?thesis by (simp add: check_has_card_reader_def df'_def)
  qed
  have s5: "check_fsa_rating P df' = df'"
  proof (cases "''fsa_rating'' \<in> ?cs")
    case True
    have b: "between 0 5 (r' ''fsa_rating'')" if "r' \<in> set (rows df')" for r'
      using rows' [OF that] r_fsa [OF True] by auto
    have e: "set_col ''fsa_rating'' (\<lambda>r. number_cell (to_numeric P (r ''fsa_rating''))) df' = df'"
    proof (rule set_col_id)
      show "''fsa_rating'' \<in> set (columns df')" using True by (simp add: cols')
      show "\<forall>r \<in> set (rows df'). number_cell (to_numeric P (r ''fsa_rating'')) = r ''fsa_rating''"
        using b between_number by blast
    qed
    have "keep (\<lambda>r. between 0 5 (r ''fsa_rating'')) df' = df'"
      by (rule keep_id) (use b in blast)
    then show ?thesis using True by (simp add: check_fsa_rating_def cols' e)
  next
    case False
    then show ?thesis by (simp add: check_fsa_rating_def cols')
  qed
  have s6: "check_payment_method df' = df'"
  proof (cases "''payment_method'' \<in> ?cs")
    case True
    have m: "r' ''payment_method'' \<in> {Str ''cash'', Str ''card''}" if "r' \<in> set (rows df')" for r'
      using rows' [OF that] r_pm [OF True] by auto
    have e: "set_col ''payment_method'' (\<lambda>r. str_lower (r ''payment_method'')) df' = df'"
    proof (rule set_col_id)
      show "''payment_method'' \<in> set (columns df')" using True by (simp add: cols')
      show "\<forall>r \<in> set (rows df'). str_lower (r ''payment_method'') = r ''payment_method''"
        using m method_lower by blast
    qed
    have "keep (\<lambda>r. r ''payment_method'' \<in> set [Str ''cash'', Str ''card'']) df' = df'"
      by (rule keep_id) (use m in auto)
    then show ?thesis using True by (simp add: check_payment_method_def cols' e)
  next
    case False
    then show ?thesis by (simp add: check_payment_method_def cols')
  qed
  have s7: "remove_duplicates df' = df'"
  proof (cases "''transaction_id'' \<in> ?cs")
    case True
    have "column ''transaction_id'' df' = column ''transaction_id'' df"
      by (simp add: df'_def)
    with dist True have "distinct (map (\<lambda>r. r ''transaction_id'') (rows df'))"
      by (simp add: column_def)
    then have "first_by (\<lambda>r. r ''transaction_id'') (rows df') = rows df'"
      by (rule first_by_distinct)
    then show ?thesis using True by (simp add: remove_duplicates_def cols' drop_duplicates_def)
  next
    case False
    then show ?thesis by (simp add: remove_duplicates_def cols')
  qed
  have ids: "cast_int_col P c df' = Inr df'"
    if "c \<in> {''truck_id'', ''payment_method_id'', ''transaction_id'', ''fsa_rating''}" for c
  proof (rule cast_int_col_id)
    assume pres: "c \<in> set (columns df')"
    show "\<forall>r \<in> set (rows df'). astype_Int64 (to_numeric P (r c)) = Inr (r c)"
    proof
      fix r' assume "r' \<in> set (rows df')"
      have "c \<noteq> ''has_card_reader''" using that by auto
      with rows' [OF \<open>r' \<in> set (rows df')\<close>]
      obtain r where r: "r \<in> set (rows df)" and e: "r' c = r c"
        by blast
      from r_ids [OF that] pres r show "astype_Int64 (to_numeric P (r' c)) = Inr (r' c)"
        unfolding e cols' by blast
    qed
  qed
  have flag: "cast_int_col P ''has_card_reader'' df' = Inr df'"
  proof (rule cast_int_col_id)
    assume pres: "''has_card_reader'' \<in> set (columns df')"
    show "\<forall>r \<in> set (rows df').
        astype_Int64 (to_numeric P (r ''has_card_reader'')) = Inr (r ''has_card_reader'')"
    proof
      fix r' assume "r' \<in> set (rows df')"
      from rows' [OF this] pres have "r' ''has_card_reader'' \<in> {Num 0, Num 1}"
        by (auto simp: cols')
      then show "astype_Int64 (to_numeric P (r' ''has_card_reader'')) = Inr (r' ''has_card_reader'')"
        by (auto simp: astype_Int64_def)
    qed
  qed
  have s8: "cast_int_cols P int_cols df' = Inr df'"
    by (simp add: int_cols_def and_then_def ids flag)
  have s9: "set_col ''total'' (\<lambda>r. astype_float64 (r ''total'')) df' = df'"
    by (rule set_col_id) (simp_all add: cols' t astype_float64_def)
  have s10: "cast_boolean df' = df"
  proof (cases "''has_card_reader'' \<in> ?cs")
    case True
    then have d: "df' = set_col ''has_card_reader''
        (\<lambda>r. number_cell (to_numeric P (r ''has_card_reader''))) df"
      by (simp add: df'_def)
    have "cast_boolean df' = set_col ''has_card_reader''
        (\<lambda>r. astype_boolean (r ''has_card_reader'')) df'"
      using True by (simp add: cast_boolean_def cols')
    also have "\<dots> = set_col ''has_card_reader''
        (\<lambda>r. astype_boolean (number_cell (to_numeric P (r ''has_card_reader'')))) df"
      by (simp add: d set_col_set_col)
    also have "\<dots> = df"
    proof (rule set_col_id [OF True])
      show "\<forall>r \<in> set (rows df).
          astype_boolean (number_cell (to_numeric P (r ''has_card_reader''))) = r ''has_card_reader''"
      proof
        fix r assume "r \<in> set (rows df)"
        from r_flag [OF True] this have "r ''has_card_reader'' \<in> {Bool False, Bool True}"
          by blast
        then show "astype_boolean (number_cell (to_numeric P (r ''has_card_reader'')))
            = r ''has_card_reader''"
          by (auto simp: number_cell_def)
      qed
    qed
    finally show ?thesis .
  next
    case False
    then show ?thesis by (simp add: cast_boolean_def df'_def)
  qed
  have v: "validated P df = Inr df'"
    by (simp add: validated_def s1 s2 s3 and_then_def domain_checks_def s4 s5 s6)
  have tc: "type_cast P df' = Inr df"
    by (simp add: type_cast_def s8 and_then_def s9 s10)
  show ?thesis
    by (simp add: clean_transactions_def v and_then_def s7 tc ro)
qed

text \<open>
  C3 (as amended). When \<open>clean_transactions\<close> returns a frame whose transaction identifiers
  are pairwise distinct and whose amounts read back from their printed form, cleaning that
  frame again returns the very same frame: the same columns in the same order and the
  same rows with the same cells in the same order.
\<close>

theorem clean_transactions_idempotent:
  assumes "clean_transactions P df = Inr out"
    and "''transaction_id'' \<in> set (columns out) \<longrightarrow> distinct (column ''transaction_id'' out)"
    and "\<forall>v \<in> set (column ''total'' out). reads_back P v"
  shows "clean_transactions P out = Inr out"
  using clean_transactions_cleaned [OF assms(1)] assms(2,3) by (rule cleaned_fixed)

theorem clean_transactions_idempotent_witness:
  "clean_transactions example_pandas raw_frame
     = Inr (the_frame (clean_transactions example_pandas raw_frame))
   \<and> distinct (column ''transaction_id'' (the_frame (clean_transactions example_pandas raw_frame)))
   \<and> list_all (reads_back example_pandas)
        (column ''total'' (the_frame (clean_transactions example_pandas raw_frame)))
   \<and> clean_transactions example_pandas (the_frame (clean_transactions example_pandas raw_frame))
       = Inr (the_frame (clean_transactions example_pandas raw_frame))"
proof -
  have rb: "reads_back example_pandas (Num 500)"
    by code_simp
  have d: "distinct (column ''transaction_id'' (the_frame (clean_transactions example_pandas raw_frame)))"
    by (simp add: clean_raw_frame(2))
  have r: "list_all (reads_back example_pandas)
        (column ''total'' (the_frame (clean_transactions example_pandas raw_frame)))"
    by (simp add: clean_raw_frame(1) rb)
  show ?thesis
    using clean_transactions_idempotent [OF clean_raw_frame_returned] clean_raw_frame_returned d r
    by (simp add: list_all_iff)
qed

text \<open>
  C3 as stated fails: duplicates are removed on the raw identifiers, before the identifiers
  are cast to integers. The raw identifiers \<open>"1"\<close> and \<open>"01"\<close> differ, so both rows survive
  the first cleaning, with the same identifier 1; the second cleaning drops the second row.
\<close>

lemma distinct_first_by: "distinct (map key (first_by key rs))"
proof (induction rs)
  case Nil
  then show ?case by simp
next
  case (Cons r rs)
  have "distinct (map key (filter (\<lambda>r'. key r' \<noteq> key r) (first_by key rs)))"
    using Cons.IH by (rule distinct_map_filter)
  then show ?case by auto
qed

lemma clean_transactions_distinct_numbers:
  assumes c: "clean_transactions P df = Inr out"
    and tid: "''transaction_id'' \<in> set (columns df)"
    and num: "\<forall>v \<in> set (column ''transaction_id'' df). \<exists>x. v = Num x"
  shows "distinct (column ''transaction_id'' out)"
proof -
  from clean_transactions_first_valid_occurrence [OF c tid] obtain v
    where v: "validated P df = Inr v"
      and ids: "map Inr (column ''transaction_id'' out)
         = map (\<lambda>r. astype_Int64 (to_numeric P (r ''transaction_id'')))
             (first_by (\<lambda>r. r ''transaction_id'') (rows v))"
    by blast
  let ?kept = "first_by (\<lambda>r. r ''transaction_id'') (rows v)"
  from v obtain a b where a: "total_handling P (strip_text P df) = Inr a"
    and b: "timestamp_handling P a = Inr b" and vb: "v = domain_checks P b"
    by (auto simp: validated_def and_then_Inr)
  have "set (column ''transaction_id'' v) \<subseteq> set (column ''transaction_id'' b)"
    unfolding vb by (rule domain_checks_props(2)) simp
  also have "\<dots> \<subseteq> set (column ''transaction_id'' a)"
    by (rule timestamp_handling_Inr(4) [OF b]) simp
  also have "\<dots> \<subseteq> set (column ''transaction_id'' (strip_text P df))"
    by (rule total_handling_Inr(4) [OF a]) simp
  also have "column ''transaction_id'' (strip_text P df) = column ''transaction_id'' df"
    by (rule strip_text_other) (simp add: text_cols_def)
  finally have numv: "\<forall>r \<in> set (rows v). \<exists>x. r ''transaction_id'' = Num x"
    using num by (auto simp: column_def)
  have "astype_Int64 (to_numeric P (r ''transaction_id'')) = Inr (r ''transaction_id'')"
    if r: "r \<in> set ?kept" for r
  proof -
    from r set_first_by [of "\<lambda>r. r ''transaction_id''" "rows v"] numv
    obtain x where x: "r ''transaction_id'' = Num x" by blast
    from r have "astype_Int64 (to_numeric P (r ''transaction_id''))
        \<in> set (map (\<lambda>r. astype_Int64 (to_numeric P (r ''transaction_id''))) ?kept)"
      by simp
    then have "astype_Int64 (to_numeric P (r ''transaction_id''))
        \<in> set (map Inr (column ''transaction_id'' out))"
      by (simp only: ids)
    then obtain w where "astype_Int64 (to_numeric P (r ''transaction_id'')) = Inr w"
      by auto
    then show ?thesis
      by (auto simp: x astype_Int64_def split: if_splits)
  qed
  then have "map (\<lambda>r. astype_Int64 (to_numeric P (r ''transaction_id''))) ?kept
      = map (\<lambda>r. Inr (r ''transaction_id'')) ?kept"
    by (intro map_cong) simp_all
  with ids have "map (Inr :: cell \<Rightarrow> error + cell) (column ''transaction_id'' out)
      = map Inr (map (\<lambda>r. r ''transaction_id'') ?kept)"
    by (simp add: o_def)
  then have "column ''transaction_id'' out = map (\<lambda>r. r ''transaction_id'') ?kept"
    by (metis inj_Inr inj_map_eq_map)
  then show ?thesis by (simp add: distinct_first_by)
qed

lemma clean_text_id_frame:
  "column ''transaction_id'' (the_frame (clean_transactions example_pandas text_id_frame))
     = [Num 1, Num 1]"
  by code_simp

theorem clean_transactions_idempotent_counterexample:
  "column ''transaction_id'' text_id_frame = [Str ''1'', Str ''01'']
   \<and> clean_transactions example_pandas text_id_frame
       = Inr (the_frame (clean_transactions example_pandas text_id_frame))
   \<and> column ''transaction_id'' (the_frame (clean_transactions example_pandas text_id_frame))
       = [Num 1, Num 1]
   \<and> clean_transactions example_pandas
        (the_frame (clean_transactions example_pandas text_id_frame))
       \<noteq> Inr (the_frame (clean_transactions example_pandas text_id_frame))"
proof -
  let ?once = "the_frame (clean_transactions example_pandas text_id_frame)"
  have raw: "column ''transaction_id'' text_id_frame = [Str ''1'', Str ''01'']"
    by (simp add: text_id_frame_def column_def row_of_def)
  have ret: "clean_transactions example_pandas text_id_frame = Inr ?once"
    by (rule returned_the_frame, rule column_the_frame_returned [of "''transaction_id''"])
       (simp add: clean_text_id_frame)
  have present: "''transaction_id'' \<in> set (columns ?once)"
  proof -
    from ret obtain a b v d1 where "set (columns ?once) = set (columns text_id_frame)"
      by (rule clean_transactions_Inr)
    then show ?thesis by (simp add: text_id_frame_def)
  qed
  have "clean_transactions example_pandas ?once \<noteq> Inr ?once"
  proof
    assume again: "clean_transactions example_pandas ?once = Inr ?once"
    have "distinct (column ''transaction_id'' ?once)"
      using again present by (rule clean_transactions_distinct_numbers)
                              (simp add: clean_text_id_frame)
    then show False by (simp add: clean_text_id_frame)
  qed
  with raw ret clean_text_id_frame show ?thesis by simp
qed


section \<open>Properties of the partitioned writer\<close>

lemma set_col_cong_rows:
  "\<forall>r \<in> set (rows d). g r = h r \<Longrightarrow> set_col c g d = set_col c h d"
  by (simp add: set_col_def)

lemma dt_step:
  assumes "try_set_col c (\<lambda>r. dt_text f (r a)) d = Inr d'"
  shows "d' = set_col c (\<lambda>r. dt_cell f (r a)) d"
    and "\<forall>r \<in> set (rows d). \<exists>t. r a = Time t"
proof -
  from try_set_col_Inr [OF assms] obtain g
    where g: "\<forall>r \<in> set (rows d). dt_text f (r a) = Inr (g r)" and d': "d' = set_col c g d"
    by blast
  show t: "\<forall>r \<in> set (rows d). \<exists>t. r a = Time t"
  proof
    fix r assume "r \<in> set (rows d)"
    with g have "dt_text f (r a) = Inr (g r)" by blast
    then show "\<exists>t. r a = Time t" by (cases "r a") (simp_all add: dt_text_def)
  qed
  have "\<forall>r \<in> set (rows d). g r = dt_cell f (r a)"
  proof
    fix r assume r: "r \<in> set (rows d)"
    with g have "dt_text f (r a) = Inr (g r)" by blast
    moreover from t r obtain t' where "r a = Time t'" by blast
    ultimately show "g r = dt_cell f (r a)" by (simp add: dt_text_def dt_cell_def)
  qed
  then show "d' = set_col c (\<lambda>r. dt_cell f (r a)) d"
    unfolding d' by (rule set_col_cong_rows)
qed

lemma mset_concat_pick:
  "distinct ks \<Longrightarrow>
     mset (concat (map (\<lambda>k. if k0 = k then r # F k else F k) ks))
       = (if k0 \<in> set ks then {#r#} else {#}) + mset (concat (map F ks))"
  by (induction ks) auto

lemma mset_groups:
  assumes "distinct ks" and "key ` set rs \<subseteq> set ks"
  shows "mset (concat (map (\<lambda>k. filter (\<lambda>r. key r = k) rs) ks)) = mset rs"
  using assms(2)
proof (induction rs)
  case Nil
  then show ?case by (induction ks) auto
next
  case (Cons r rs)
  have "map (\<lambda>k. filter (\<lambda>r. key r = k) (r # rs)) ks
      = map (\<lambda>k. if key r = k then r # filter (\<lambda>r. key r = k) rs else filter (\<lambda>r. key r = k) rs) ks"
    by (intro map_cong) auto
  then have "mset (concat (map (\<lambda>k. filter (\<lambda>r. key r = k) (r # rs)) ks))
      = {#r#} + mset (concat (map (\<lambda>k. filter (\<lambda>r. key r = k) rs) ks))"
    using mset_concat_pick [OF assms(1), of "key r" r "\<lambda>k. filter (\<lambda>r. key r = k) rs"] Cons.prems
    by simp
  with Cons show ?case by simp
qed

lemma written_rows_groups:
  "mset (written_rows (map (\<lambda>k. (pth k, drop_columns partition_columns (keep (\<lambda>r. key r = k) d)))
                            (unique (map key (rows d)))))
     = mset (map unpartitioned (rows d))"
proof -
  have "written_rows (map (\<lambda>k. (pth k, drop_columns partition_columns (keep (\<lambda>r. key r = k) d)))
                            (unique (map key (rows d))))
      = map unpartitioned (concat (map (\<lambda>k. filter (\<lambda>r. key r = k) (rows d)) (unique (map key (rows d)))))"
  proof -
    have u: "unpartitioned = (\<lambda>r c. if c \<in> set partition_columns then NA else r c)"
      by (simp add: fun_eq_iff unpartitioned_def)
    show ?thesis
      by (simp add: written_rows_def drop_columns_def o_def map_concat u)
  qed
  then show ?thesis
    by (simp add: mset_groups)
qed

lemma unpartitioned_stamp: "unpartitioned (stamp r) = unpartitioned r"
  by (auto simp: unpartitioned_def stamp_def partition_columns_def fun_eq_iff)

lemma stamp_at: "stamp r ''at'' = r ''at''"
  by (simp add: stamp_def)

lemma group_key_stamp:
  "r ''at'' = Time t \<Longrightarrow>
     group_key (stamp r) = [Str (show_nat (year t)), Str (pad2 (month t)), Str (pad2 (day t)),
                            Str (pad2 (hour t))]"
  by (simp add: group_key_def partition_columns_def stamp_def dt_cell_def)

lemma out_path_stamp:
  "r ''at'' = Time t \<Longrightarrow> out_path P root_dir (group_key (stamp r)) filename
     = root_dir @ partition_of t @ [filename]"
  by (simp add: group_key_stamp out_path_def partition_of_def cell_text_def)

lemma datetime_col_Inr:
  "datetime_col P a r = Inr c \<Longrightarrow> \<exists>v. to_datetime P (r a) = Inr v \<and> c = datetime_cell v"
  by (cases "to_datetime P (r a)") (auto simp: datetime_col_def)

lemma rows_set_col: "rows (set_col c g d) = map (\<lambda>r. r(c := g r)) (rows d)"
  by (simp add: set_col_def)

lemma out_path_inj:
  "k = [Str a, Str b, Str c, Str d] \<Longrightarrow> k' = [Str a', Str b', Str c', Str d'] \<Longrightarrow>
     out_path P root_dir k filename = out_path P root_dir k' filename \<Longrightarrow> k = k'"
  by (simp add: out_path_def cell_text_def)

lemma write_time_partitioned_transactions_Inr:
  assumes "write_time_partitioned_transactions P tx root_dir ''at'' filename = Inr ws"
  obtains g and d0 :: frame and d4 :: frame where
    "\<forall>r \<in> set (rows tx). datetime_col P ''at'' r = Inr (g r)"
    "rows d0 = filter (\<lambda>r. r ''at'' \<noteq> NA) (map (\<lambda>r. r(''at'' := g r)) (rows tx))"
    "\<forall>r \<in> set (rows d0). \<exists>t. r ''at'' = Time t"
    "rows d4 = map stamp (rows d0)"
    "ws = map (\<lambda>k. (out_path P root_dir k filename,
                     drop_columns partition_columns (keep (\<lambda>r. group_key r = k) d4)))
              (unique (map group_key (rows d4)))"
proof -
  from assms obtain d' d1 d2 d3 d4 where
    d': "try_set_col ''at'' (datetime_col P ''at'') tx = Inr d'" and
    d1: "try_set_col ''year'' (\<lambda>r. dt_text (\<lambda>t. show_nat (year t)) (r ''at''))
           (keep (\<lambda>r. r ''at'' \<noteq> NA) d') = Inr d1" and
    d2: "try_set_col ''month'' (\<lambda>r. dt_text (\<lambda>t. pad2 (month t)) (r ''at'')) d1 = Inr d2" and
    d3: "try_set_col ''day'' (\<lambda>r. dt_text (\<lambda>t. pad2 (day t)) (r ''at'')) d2 = Inr d3" and
    d4: "try_set_col ''hour'' (\<lambda>r. dt_text (\<lambda>t. pad2 (hour t)) (r ''at'')) d3 = Inr d4" and
    ws: "ws = map (\<lambda>k. (out_path P root_dir k filename,
                     drop_columns partition_columns (keep (\<lambda>r. group_key r = k) d4)))
              (unique (map group_key (rows d4)))"
    by (auto simp: write_time_partitioned_transactions_def and_then_Inr Let_def split: if_splits)
  from try_set_col_Inr [OF d'] obtain g
    where g: "\<forall>r \<in> set (rows tx). datetime_col P ''at'' r = Inr (g r)"
      and dg: "d' = set_col ''at'' g tx"
    by blast
  let ?d0 = "keep (\<lambda>r. r ''at'' \<noteq> NA) d'"
  have r0: "rows ?d0 = filter (\<lambda>r. r ''at'' \<noteq> NA) (map (\<lambda>r. r(''at'' := g r)) (rows tx))"
    by (simp add: dg rows_set_col)
  have t0: "\<forall>r \<in> set (rows ?d0). \<exists>t. r ''at'' = Time t"
    by (rule dt_step(2) [OF d1])
  have r4: "rows d4 = map stamp (rows ?d0)"
    unfolding dt_step(1) [OF d4] dt_step(1) [OF d3] dt_step(1) [OF d2] dt_step(1) [OF d1]
    by (simp add: rows_set_col o_def stamp_def)
  show ?thesis using that [OF g r0 t0 r4 ws] .
qed

text \<open>
  C4. Whenever \<open>write_time_partitioned_transactions\<close> (with the timestamp column \<open>at\<close>)
  returns, it has written each leaf file once; every transaction stored in a file has a
  parsed timestamp, and the file is the one in the partition of that timestamp, given by
  its year, zero-padded month, zero-padded day and zero-padded hour; and the transactions
  stored in all the files together are exactly the input transactions whose timestamp
  parses, each as often as it occurs in the input. So every transaction written is in
  exactly one leaf partition, fixed by its timestamp alone; for the timestamp
  2024-03-05T14:30:00 it is \<open>year=2024/month=03/day=05/hour=14\<close>.
\<close>

theorem write_time_partitioned_transactions_partition:
  assumes "write_time_partitioned_transactions P tx root_dir ''at'' filename = Inr ws"
  shows "distinct (map fst ws)
     \<and> (\<forall>w \<in> set ws. \<forall>r \<in> set (rows (snd w)).
           \<exists>t. r ''at'' = Time t \<and> fst w = root_dir @ partition_of t @ [filename])
     \<and> mset (written_rows ws) = mset (map (stored_row P) (filter (parses P) (rows tx)))
     \<and> partition_of \<lparr> year = 2024, month = 3, day = 5, hour = 14, minute = 30, second = 0 \<rparr>
         = [''year=2024'', ''month=03'', ''day=05'', ''hour=14'']"
proof -
  from assms obtain g and d0 :: frame and d4 :: frame where
    g: "\<forall>r \<in> set (rows tx). datetime_col P ''at'' r = Inr (g r)" and
    r0: "rows d0 = filter (\<lambda>r. r ''at'' \<noteq> NA) (map (\<lambda>r. r(''at'' := g r)) (rows tx))" and
    t0: "\<forall>r \<in> set (rows d0). \<exists>t. r ''at'' = Time t" and
    r4: "rows d4 = map stamp (rows d0)" and
    ws: "ws = map (\<lambda>k. (out_path P root_dir k filename,
                     drop_columns partition_columns (keep (\<lambda>r. group_key r = k) d4)))
              (unique (map group_key (rows d4)))"
    by (rule write_time_partitioned_transactions_Inr)
  let ?keys = "unique (map group_key (rows d4))"
  have keyform: "\<exists>t :: timestamp. k = [Str (show_nat (year t)), Str (pad2 (month t)), Str (pad2 (day t)),
                            Str (pad2 (hour t))]"
    if "k \<in> set ?keys" for k
  proof -
    from that obtain r where "r \<in> set (rows d0)" and k: "k = group_key (stamp r)"
      by (auto simp: r4)
    with t0 obtain t where "r ''at'' = Time t" by blast
    then have "group_key (stamp r) = [Str (show_nat (year t)), Str (pad2 (month t)),
        Str (pad2 (day t)), Str (pad2 (hour t))]"
      by (rule group_key_stamp)
    then show ?thesis unfolding k by blast
  qed
  have "inj_on (\<lambda>k. out_path P root_dir k filename) (set ?keys)"
  proof (rule inj_onI)
    fix k k' assume "k \<in> set ?keys" "k' \<in> set ?keys"
      and e: "out_path P root_dir k filename = out_path P root_dir k' filename"
    then obtain t t' :: timestamp where
      "k = [Str (show_nat (year t)), Str (pad2 (month t)), Str (pad2 (day t)), Str (pad2 (hour t))]"
      "k' = [Str (show_nat (year t')), Str (pad2 (month t')), Str (pad2 (day t')), Str (pad2 (hour t'))]"
      using keyform by blast
    then show "k = k'" using e by (rule out_path_inj)
  qed
  then have one: "distinct (map fst ws)"
    by (simp add: ws o_def distinct_map)
  have two: "\<exists>t. r ''at'' = Time t \<and> fst w = root_dir @ partition_of t @ [filename]"
    if w: "w \<in> set ws" and r: "r \<in> set (rows (snd w))" for w r
  proof -
    from w obtain k where fw: "fst w = out_path P root_dir k filename"
      and sw: "snd w = drop_columns partition_columns (keep (\<lambda>r. group_key r = k) d4)"
      by (auto simp: ws)
    from r obtain r4' where "r4' \<in> set (rows d4)" and k: "group_key r4' = k"
      and rr: "r = (\<lambda>c. if c \<in> set partition_columns then NA else r4' c)"
      by (auto simp: sw drop_columns_def)
    then obtain r0' where r0': "r0' \<in> set (rows d0)" and s: "r4' = stamp r0'"
      by (auto simp: r4)
    from t0 r0' obtain t where t: "r0' ''at'' = Time t" by blast
    have "r ''at'' = Time t"
      by (simp add: rr s stamp_at t partition_columns_def)
    moreover have "fst w = root_dir @ partition_of t @ [filename]"
      unfolding fw k [symmetric] s using t by (rule out_path_stamp)
    ultimately show ?thesis by blast
  qed
  have "mset (written_rows ws) = mset (map unpartitioned (rows d4))"
    unfolding ws by (rule written_rows_groups)
  also have "map unpartitioned (rows d4) = map unpartitioned (rows d0)"
    by (simp add: r4 o_def unpartitioned_stamp)
  also have "\<dots> = map (stored_row P) (filter (parses P) (rows tx))"
  proof -
    have a: "(r(''at'' := g r)) ''at'' \<noteq> NA \<longleftrightarrow> parses P r" if "r \<in> set (rows tx)" for r
    proof -
      from g that obtain v where "to_datetime P (r ''at'') = Inr v" "g r = datetime_cell v"
        using datetime_col_Inr by blast
      then show ?thesis by (cases v) (simp_all add: parses_def datetime_cell_def)
    qed
    have b: "unpartitioned (r(''at'' := g r)) = stored_row P r" if "r \<in> set (rows tx)" for r
    proof -
      from g that obtain v where "to_datetime P (r ''at'') = Inr v" "g r = datetime_cell v"
        using datetime_col_Inr by blast
      then show ?thesis
        by (auto simp: unpartitioned_def stored_row_def fun_eq_iff)
    qed
    have "rows d0 = map (\<lambda>r. r(''at'' := g r)) (filter (parses P) (rows tx))"
      unfolding r0 filter_map o_def using a by (intro arg_cong [where f = "map _"] filter_cong) auto
    then have "map unpartitioned (rows d0)
        = map (\<lambda>r. unpartitioned (r(''at'' := g r))) (filter (parses P) (rows tx))"
      by (simp add: o_def)
    also have "\<dots> = map (stored_row P) (filter (parses P) (rows tx))"
      using b by (intro map_cong) auto
    finally show ?thesis .
  qed
  finally have three: "mset (written_rows ws)
      = mset (map (stored_row P) (filter (parses P) (rows tx)))" .
  have four: "partition_of \<lparr> year = 2024, month = 3, day = 5, hour = 14, minute = 30, second = 0 \<rparr>
         = [''year=2024'', ''month=03'', ''day=05'', ''hour=14'']"
    by (simp add: partition_of_def pad2_def show_nat.simps)
  show ?thesis using one two three four by blast
qed

lemma write_hours_frame:
  "map fst (the_files (write_time_partitioned_transactions example_pandas hours_frame
       [''input'', ''transaction''] ''at'' ''transaction.parquet''))
     = [[''input'', ''transaction'', ''year=2024'', ''month=03'', ''day=05'', ''hour=14'',
         ''transaction.parquet''],
        [''input'', ''transaction'', ''year=2024'', ''month=03'', ''day=05'', ''hour=15'',
         ''transaction.parquet'']]"
  "map (\<lambda>w. column ''transaction_id'' (snd w))
     (the_files (write_time_partitioned_transactions example_pandas hours_frame
       [''input'', ''transaction''] ''at'' ''transaction.parquet''))
     = [[Num 1, Num 3], [Num 2]]"
  by code_simp+

lemma the_files_returned: "the_files m \<noteq> [] \<Longrightarrow> m = Inr (the_files m)"
  by (cases m) (simp_all add: the_files_def)

theorem write_time_partitioned_transactions_partition_witness:
  "write_time_partitioned_transactions example_pandas hours_frame
       [''input'', ''transaction''] ''at'' ''transaction.parquet''
     = Inr (the_files (write_time_partitioned_transactions example_pandas hours_frame
              [''input'', ''transaction''] ''at'' ''transaction.parquet''))
   \<and> map fst (the_files (write_time_partitioned_transactions example_pandas hours_frame
         [''input'', ''transaction''] ''at'' ''transaction.parquet''))
       = [[''input'', ''transaction'', ''year=2024'', ''month=03'', ''day=05'', ''hour=14'',
           ''transaction.parquet''],
          [''input'', ''transaction'', ''year=2024'', ''month=03'', ''day=05'', ''hour=15'',
           ''transaction.parquet'']]
   \<and> map (\<lambda>w. column ''transaction_id'' (snd w))
         (the_files (write_time_partitioned_transactions example_pandas hours_frame
           [''input'', ''transaction''] ''at'' ''transaction.parquet''))
       = [[Num 1, Num 3], [Num 2]]
   \<and> mset (written_rows (the_files (write_time_partitioned_transactions example_pandas
         hours_frame [''input'', ''transaction''] ''at'' ''transaction.parquet'')))
       = mset (map (stored_row example_pandas) (filter (parses example_pandas) (rows hours_frame)))"
proof -
  let ?m = "write_time_partitioned_transactions example_pandas hours_frame
       [''input'', ''transaction''] ''at'' ''transaction.parquet''"
  have "the_files ?m \<noteq> []"
    using write_hours_frame(1) by auto
  then have ret: "?m = Inr (the_files ?m)"
    by (rule the_files_returned)
  show ?thesis
    using write_time_partitioned_transactions_partition [OF ret] ret write_hours_frame
    by blast
qed

end
